theory Spec2Isabelle
  imports Complex_Main "HOL-Library.Log_Nat"
begin

section \<open>JavaScript numbers\<close>

text \<open>
  A JavaScript number is an IEEE-754 binary64 value. The finite ones are rationals, so a
  number is modelled as a rational or one of the three special values. The sign of zero
  is not tracked: none of the modelled functions divides by zero, \<open>String\<close> prints
  both zeros as \<open>0\<close>, and every comparison treats the two zeros alike. \<open>Fin\<close> admits every rational; the
  arithmetic operations below round their exact result to binary64 (\<open>rnd\<close>), so the
  doubles are closed under them, and the theorems hold for the doubles in particular.
\<close>

datatype jsnum = Fin rat | PInf | NInf | NaN

fun Number_isFinite :: "jsnum \<Rightarrow> bool" where
  "Number_isFinite (Fin _) = True"
| "Number_isFinite _ = False"

fun Number_isNaN :: "jsnum \<Rightarrow> bool" where
  "Number_isNaN NaN = True"
| "Number_isNaN _ = False"

text \<open>\<open>Math.floor\<close>: exact on a finite double, the identity on the special values.\<close>

fun Math_floor :: "jsnum \<Rightarrow> jsnum" where
  "Math_floor (Fin x) = Fin (of_int \<lfloor>x\<rfloor>)"
| "Math_floor n = n"

text \<open>The comparison \<open>a < b\<close>: false as soon as one side is \<open>NaN\<close>.\<close>

fun js_lt :: "jsnum \<Rightarrow> jsnum \<Rightarrow> bool" where
  "js_lt (Fin x) (Fin y) = (x < y)"
| "js_lt (Fin _) PInf = True"
| "js_lt NInf (Fin _) = True"
| "js_lt NInf PInf = True"
| "js_lt _ _ = False"

definition js_gt :: "jsnum \<Rightarrow> jsnum \<Rightarrow> bool" where
  "js_gt a b = js_lt b a"

text \<open>The comparison \<open>a <= b\<close>.\<close>

fun js_le :: "jsnum \<Rightarrow> jsnum \<Rightarrow> bool" where
  "js_le NaN _ = False"
| "js_le _ NaN = False"
| "js_le a b = (a = b \<or> js_lt a b)"

subsection \<open>Rounding to binary64\<close>

definition pow2 :: "int \<Rightarrow> rat" where
  "pow2 e = 2 powi e"

text \<open>For \<open>a > 0\<close>, the exponent \<open>e\<close> with \<open>2^e \<le> a < 2^(e+1)\<close>.\<close>

definition ilog2 :: "rat \<Rightarrow> int" where
  "ilog2 a = (let d = bitlen (fst (quotient_of a)) - bitlen (snd (quotient_of a))
              in if pow2 d \<le> a then d else d - 1)"

definition round_half_even :: "rat \<Rightarrow> int" where
  "round_half_even q =
     (let f = \<lfloor>q\<rfloor>; r = q - of_int f
      in if r < 1 / 2 then f
         else if 1 / 2 < r then f + 1
         else if even f then f else f + 1)"

text \<open>
  Round to nearest, ties to even, with 53 significant bits, exponents from \<open>-1022\<close>
  (below it the spacing stays \<open>2^-1074\<close>: the subnormals) and overflow to an infinity
  when the rounded magnitude reaches \<open>2^1024\<close>.
\<close>

definition rnd :: "rat \<Rightarrow> jsnum" where
  "rnd x =
     (if x = 0 then Fin 0
      else let a = \<bar>x\<bar>;
               e = max (ilog2 a) (- 1022);
               ulp = pow2 (e - 52);
               y = of_int (round_half_even (a / ulp)) * ulp
           in if pow2 1024 \<le> y then (if 0 < x then PInf else NInf)
              else Fin (if 0 < x then y else - y))"

text \<open>The operators \<open>+\<close>, \<open>-\<close> and \<open>/\<close> on numbers.\<close>

fun js_add :: "jsnum \<Rightarrow> jsnum \<Rightarrow> jsnum" where
  "js_add NaN _ = NaN"
| "js_add _ NaN = NaN"
| "js_add PInf NInf = NaN"
| "js_add NInf PInf = NaN"
| "js_add PInf _ = PInf"
| "js_add _ PInf = PInf"
| "js_add NInf _ = NInf"
| "js_add _ NInf = NInf"
| "js_add (Fin x) (Fin y) = rnd (x + y)"

fun js_neg :: "jsnum \<Rightarrow> jsnum" where
  "js_neg (Fin x) = Fin (- x)"
| "js_neg PInf = NInf"
| "js_neg NInf = PInf"
| "js_neg NaN = NaN"

definition js_sub :: "jsnum \<Rightarrow> jsnum \<Rightarrow> jsnum" where
  "js_sub a b = js_add a (js_neg b)"

text \<open>
  Division; a zero divisor is taken as \<open>+0\<close> (the modelled code divides by a count that
  it has checked to be positive).
\<close>

fun js_div :: "jsnum \<Rightarrow> jsnum \<Rightarrow> jsnum" where
  "js_div NaN _ = NaN"
| "js_div _ NaN = NaN"
| "js_div (Fin x) (Fin y) =
     (if y = 0 then (if x = 0 then NaN else if 0 < x then PInf else NInf)
      else rnd (x / y))"
| "js_div (Fin _) _ = Fin 0"
| "js_div PInf (Fin y) = (if 0 \<le> y then PInf else NInf)"
| "js_div NInf (Fin y) = (if 0 \<le> y then NInf else PInf)"
| "js_div _ _ = NaN"


subsection \<open>Printing numbers\<close>

function show_nat :: "nat \<Rightarrow> string" where
  "show_nat n =
     (if n < 10 then [''0123456789'' ! n]
      else show_nat (n div 10) @ [''0123456789'' ! (n mod 10)])"
  by pat_completeness auto
termination
  by (relation "measure (\<lambda>n. n)") auto

declare show_nat.simps [simp del]

text \<open>
  \<open>String(n)\<close> prints the shortest decimal digits that read back as the same double. For
  the special values the language fixes the text, and for a whole number below \<open>2^53\<close>
  in magnitude those digits are its exact decimal expansion (every such number is a
  double of its own, so no shorter text reads back as it). For every other finite
  number, a fraction or a whole number from \<open>2^53\<close> on such as \<open>2^69\<close>, which prints
  as \<open>590295810358705700000\<close>, the digits come from the language's digit generation,
  which is a parameter here.
\<close>

fun Number_toString :: "(rat \<Rightarrow> string) \<Rightarrow> jsnum \<Rightarrow> string" where
  "Number_toString digits NaN = ''NaN''"
| "Number_toString digits PInf = ''Infinity''"
| "Number_toString digits NInf = ''-Infinity''"
| "Number_toString digits (Fin x) =
     (if x = of_int \<lfloor>x\<rfloor> \<and> \<bar>x\<bar> < 2 ^ 53
      then (if x < 0 then ''-'' @ show_nat (nat (- \<lfloor>x\<rfloor>)) else show_nat (nat \<lfloor>x\<rfloor>))
      else digits x)"

section \<open>The transport function: \<open>src/lib/api/sensor-readings.ts\<close>\<close>

record SensorReading =
  timestamp :: string
  moisture :: jsnum

record PaginationMeta =
  totalItems :: jsnum
  totalPages :: jsnum
  meta_page :: jsnum
  meta_limit :: jsnum

record SensorReadingsResponse =
  response_data :: "SensorReading list"
  response_meta :: PaginationMeta

text \<open>An \<open>Error\<close> object: its \<open>name\<close> and its \<open>message\<close>.\<close>

record js_error =
  name :: string
  message :: string

text \<open>A decoded JSON value, as \<open>response.json()\<close> resolves to.\<close>

datatype json =
  JNull | JBool bool | JNum jsnum | JStr string | JArr "json list" | JObj "(string \<times> json) list"

text \<open>\<open>!payload\<close>: the falsy values.\<close>

fun falsy :: "json \<Rightarrow> bool" where
  "falsy JNull = True"
| "falsy (JBool b) = (\<not> b)"
| "falsy (JNum n) = (n = Fin 0 \<or> n = NaN)"
| "falsy (JStr s) = (s = [])"
| "falsy _ = False"

text \<open>
  A property read \<open>payload.key\<close> for the keys \<open>data\<close> and \<open>meta\<close>: \<open>None\<close> is
  \<open>undefined\<close>, which is also what a boolean, number, string or array gives for them.
\<close>

fun get_prop :: "json \<Rightarrow> string \<Rightarrow> json option" where
  "get_prop (JObj kvs) k = map_of kvs k"
| "get_prop _ k = None"

fun Array_isArray :: "json option \<Rightarrow> bool" where
  "Array_isArray (Some (JArr _)) = True"
| "Array_isArray _ = False"

fun typeof :: "json option \<Rightarrow> string" where
  "typeof None = ''undefined''"
| "typeof (Some JNull) = ''object''"
| "typeof (Some (JBool _)) = ''boolean''"
| "typeof (Some (JNum _)) = ''number''"
| "typeof (Some (JStr _)) = ''string''"
| "typeof (Some (JArr _)) = ''object''"
| "typeof (Some (JObj _)) = ''object''"

text \<open>
  What \<open>fetch\<close> resolves to: the status line and the outcome of decoding the body
  (\<open>Inl\<close> when \<open>response.json()\<close> rejects). \<open>response.ok\<close> is the status range 200--299.
\<close>

record http_response =
  status :: nat
  statusText :: string
  json_body :: "js_error + json"

definition response_ok :: "http_response \<Rightarrow> bool" where
  "response_ok r = (200 \<le> status r \<and> status r \<le> 299)"

text \<open>
  The URL being built: the endpoint's own text and its query parameters in order.
  \<open>searchParams.set\<close> overwrites the first pair of that name and drops the others, or
  appends a new pair.
\<close>

record url =
  endpoint :: string
  searchParams :: "(string \<times> string) list"

fun replace_first :: "string \<Rightarrow> string \<Rightarrow> (string \<times> string) list \<Rightarrow> (string \<times> string) list" where
  "replace_first k v [] = []"
| "replace_first k v (p # ps) =
     (if fst p = k then (k, v) # filter (\<lambda>q. fst q \<noteq> k) ps else p # replace_first k v ps)"

definition searchParams_set :: "string \<Rightarrow> string \<Rightarrow> url \<Rightarrow> url" where
  "searchParams_set k v u =
     u\<lparr>searchParams :=
         (if k \<in> fst ` set (searchParams u) then replace_first k v (searchParams u)
          else searchParams u @ [(k, v)])\<rparr>"

text \<open>
  Lines 28--41: the defaults of the destructured parameters (\<open>None\<close> is an omitted
  argument) and the two guarded \<open>searchParams.set\<close> calls. The arguments are typed
  \<open>number\<close>, so \<open>typeof page === "number"\<close> holds and the guard is
  \<open>!Number.isNaN(page)\<close>.
\<close>

definition fetchSensorReadings_url ::
    "(rat \<Rightarrow> string) \<Rightarrow> url \<Rightarrow> jsnum option \<Rightarrow> jsnum option \<Rightarrow> url" where
  "fetchSensorReadings_url digits SENSOR_READINGS_ENDPOINT page_arg limit_arg =
     (let page = (case page_arg of None \<Rightarrow> Fin 1 | Some p \<Rightarrow> p);
          limit = (case limit_arg of None \<Rightarrow> Fin 20 | Some l \<Rightarrow> l);
          url0 = SENSOR_READINGS_ENDPOINT;
          url1 = (if \<not> Number_isNaN page
                  then searchParams_set ''page'' (Number_toString digits page) url0 else url0);
          url2 = (if \<not> Number_isNaN limit
                  then searchParams_set ''limit'' (Number_toString digits limit) url1 else url1)
      in url2)"

text \<open>
  Lines 43--64: what the function settles to, given what \<open>fetch\<close> settled to (\<open>Inl\<close> is
  a rejection: a network failure or an abort).
\<close>

definition fetchSensorReadings_settle :: "js_error + http_response \<Rightarrow> js_error + json" where
  "fetchSensorReadings_settle fetched =
     (case fetched of
        Inl e \<Rightarrow> Inl e
      | Inr response \<Rightarrow>
          if \<not> response_ok response
          then Inl \<lparr>name = ''Error'',
                    message = ''Failed to fetch sensor readings: '' @ show_nat (status response)
                              @ '' '' @ statusText response\<rparr>
          else (case json_body response of
                  Inl e \<Rightarrow> Inl e
                | Inr payload \<Rightarrow>
                    if falsy payload \<or> \<not> Array_isArray (get_prop payload ''data'')
                       \<or> typeof (get_prop payload ''meta'') \<noteq> ''object''
                    then Inl \<lparr>name = ''Error'',
                              message = ''Invalid sensor readings response shape''\<rparr>
                    else Inr payload))"

section \<open>The polling coordinator: \<open>src/hooks/use-sensor-readings.ts\<close>\<close>

text \<open>Lines 18--34.\<close>

definition sanitizePositiveInteger :: "jsnum \<Rightarrow> jsnum \<Rightarrow> bool \<Rightarrow> jsnum" where
  "sanitizePositiveInteger val fallback allowZero =
     (if \<not> Number_isFinite val then fallback
      else let normalized = Math_floor val
           in if allowZero then (if js_lt normalized (Fin 0) then fallback else normalized)
              else (if js_le normalized (Fin 0) then fallback else normalized))"

record FetchRequest =
  req_page :: jsnum
  req_limit :: jsnum
  withLoading :: bool

text \<open>
  The hook's state: the seven \<open>useState\<close> cells and \<open>controllerRef\<close>. An
  \<open>AbortController\<close> is the number it was created as; \<open>aborted\<close> holds the controllers
  whose signal has been aborted and \<open>created\<close> counts the controllers made so far.
\<close>

record hook_state =
  page :: jsnum
  limit :: jsnum
  data :: "SensorReading list"
  meta :: "PaginationMeta option"
  isLoading :: bool
  isRefreshing :: bool
  error :: "js_error option"
  controllerRef :: "nat option"
  aborted :: "nat set"
  created :: nat

text \<open>Lines 66--79: the initial state.\<close>

definition useSensorReadings_init :: "jsnum \<Rightarrow> jsnum \<Rightarrow> bool \<Rightarrow> hook_state" where
  "useSensorReadings_init initialPage initialLimit enabled =
     \<lparr>page = sanitizePositiveInteger initialPage (Fin 1) True,
      limit = sanitizePositiveInteger initialLimit (Fin 20) False,
      data = [], meta = None, isLoading = enabled, isRefreshing = False, error = None,
      controllerRef = None, aborted = {}, created = 0\<rparr>"

text \<open>\<open>controllerRef.current?.abort()\<close>.\<close>

definition abort_current :: "hook_state \<Rightarrow> hook_state" where
  "abort_current st =
     (case controllerRef st of None \<Rightarrow> st | Some c \<Rightarrow> st\<lparr>aborted := insert c (aborted st)\<rparr>)"

text \<open>
  The call that \<open>fetchData\<close> makes to the transport: the page, the limit and the
  controller whose signal it passes.
\<close>

record transport_call =
  call_page :: jsnum
  call_limit :: jsnum
  call_controller :: nat

text \<open>Lines 82--98: \<open>fetchData\<close> up to its \<open>await\<close>.\<close>

definition fetchData_begin :: "FetchRequest \<Rightarrow> hook_state \<Rightarrow> transport_call \<times> hook_state" where
  "fetchData_begin req st =
     (let st1 = abort_current st;
          controller = created st1;
          st2 = st1\<lparr>controllerRef := Some controller, created := Suc controller\<rparr>;
          st3 = (if withLoading req then st2\<lparr>isLoading := True\<rparr>
                 else st2\<lparr>isRefreshing := True\<rparr>)
      in (\<lparr>call_page = req_page req, call_limit = req_limit req,
           call_controller = controller\<rparr>, st3))"

text \<open>
  Lines 100--128: \<open>fetchData\<close> from the moment the transport settles (\<open>Inl\<close> is what it
  threw). The \<open>try\<close> and \<open>catch\<close> blocks give the returned value and the writes to
  \<open>data\<close>, \<open>meta\<close> and \<open>error\<close>; the \<open>finally\<close> block then handles the flags.
\<close>

definition fetchData_try ::
    "nat \<Rightarrow> js_error + SensorReadingsResponse \<Rightarrow> hook_state
      \<Rightarrow> SensorReadingsResponse option \<times> hook_state" where
  "fetchData_try controller settled st =
     (case settled of
        Inr response \<Rightarrow>
          if controller \<in> aborted st \<or> controllerRef st \<noteq> Some controller then (None, st)
          else (Some response,
                st\<lparr>data := response_data response, meta := Some (response_meta response),
                   error := None\<rparr>)
      | Inl caughtError \<Rightarrow>
          if name caughtError = ''AbortError'' then (None, st)
          else (None, st\<lparr>error := Some caughtError\<rparr>))"

definition fetchData_finally :: "nat \<Rightarrow> bool \<Rightarrow> hook_state \<Rightarrow> hook_state" where
  "fetchData_finally controller with_loading st =
     (let isLatestRequest = (controllerRef st = Some controller)
      in if with_loading then (if isLatestRequest then st\<lparr>isLoading := False\<rparr> else st)
         else if isLatestRequest then st\<lparr>isRefreshing := False\<rparr>
         else st\<lparr>isRefreshing := False\<rparr>)"

definition fetchData_settle ::
    "nat \<Rightarrow> bool \<Rightarrow> js_error + SensorReadingsResponse \<Rightarrow> hook_state
      \<Rightarrow> SensorReadingsResponse option \<times> hook_state" where
  "fetchData_settle controller with_loading settled st =
     (let (returned, st1) = fetchData_try controller settled st
      in (returned, fetchData_finally controller with_loading st1))"

text \<open>Lines 183--205: the setters take a number or an updater of the current value.\<close>

datatype setter_arg = Value jsnum | Updater "jsnum \<Rightarrow> jsnum"

definition setPage :: "setter_arg \<Rightarrow> hook_state \<Rightarrow> hook_state" where
  "setPage arg st =
     (let current = page st;
          nextValue = (case arg of Updater f \<Rightarrow> f current | Value v \<Rightarrow> v)
      in st\<lparr>page := sanitizePositiveInteger nextValue (Fin 1) True\<rparr>)"

definition setLimit :: "setter_arg \<Rightarrow> hook_state \<Rightarrow> hook_state" where
  "setLimit arg st =
     (let current = limit st;
          nextValue = (case arg of Updater f \<Rightarrow> f current | Value v \<Rightarrow> v)
      in st\<lparr>limit := sanitizePositiveInteger nextValue (Fin 20) False\<rparr>)"

text \<open>Lines 207--211: \<open>refetch\<close> up to the \<open>await\<close> inside \<open>fetchData\<close>.\<close>

definition refetch_begin :: "hook_state \<Rightarrow> transport_call \<times> hook_state" where
  "refetch_begin st =
     fetchData_begin \<lparr>req_page = page st, req_limit = limit st, withLoading = False\<rparr> st"

text \<open>A run of setter calls, in order.\<close>

datatype setter_call = SetPage setter_arg | SetLimit setter_arg

fun apply_setter :: "hook_state \<Rightarrow> setter_call \<Rightarrow> hook_state" where
  "apply_setter st (SetPage arg) = setPage arg st"
| "apply_setter st (SetLimit arg) = setLimit arg st"

text \<open>
  Lines 143--153: the effect that runs when the hook is disabled. It aborts the request
  in flight, leaves \<open>controllerRef\<close> as it is and turns both flags off.
\<close>

definition disable_effect :: "hook_state \<Rightarrow> hook_state" where
  "disable_effect st = (abort_current st)\<lparr>isLoading := False, isRefreshing := False\<rparr>"

text \<open>
  What can happen to the hook between two moments: a request is issued (by the load
  effect, the timer or \<open>refetch\<close>), the transport call of some request settles, a setter
  is called, or the hook is disabled.
\<close>

datatype event =
    Issued FetchRequest
  | Settled nat bool "js_error + SensorReadingsResponse"
  | SetterCalled setter_call
  | Disabled

fun apply_event :: "hook_state \<Rightarrow> event \<Rightarrow> hook_state" where
  "apply_event st (Issued req) = snd (fetchData_begin req st)"
| "apply_event st (Settled controller with_loading settled) =
     snd (fetchData_settle controller with_loading settled st)"
| "apply_event st (SetterCalled c) = apply_setter st c"
| "apply_event st Disabled = disable_effect st"

section \<open>The aggregator: \<open>computeStatistics\<close> in \<open>sensor-readings-dashboard.tsx\<close>\<close>

record SensorStatistics =
  average :: "jsnum option"
  min_stat :: "jsnum option"
  max_stat :: "jsnum option"
  range_stat :: "jsnum option"
  trend :: "jsnum option"
  latest :: "SensorReading option"
  earliest :: "SensorReading option"
  lastUpdated :: "jsnum option"

text \<open>The eight local variables of the loop (lines 101--108).\<close>

record loop_vars =
  latest_v :: "SensorReading option"
  earliest_v :: "SensorReading option"
  latestTime :: jsnum
  earliestTime :: jsnum
  sum_v :: jsnum
  count_v :: jsnum
  min_v :: jsnum
  max_v :: jsnum

definition loop_init :: loop_vars where
  "loop_init =
     \<lparr>latest_v = None, earliest_v = None, latestTime = NInf, earliestTime = PInf,
      sum_v = Fin 0, count_v = Fin 0, min_v = PInf, max_v = NInf\<rparr>"

text \<open>
  \<open>Date.parse\<close> is a parameter: it gives \<open>NaN\<close> (\<open>None\<close>) or a time value, a whole
  number of milliseconds.
\<close>

definition parsed :: "(string \<Rightarrow> int option) \<Rightarrow> string \<Rightarrow> jsnum" where
  "parsed Date_parse s = (case Date_parse s of None \<Rightarrow> NaN | Some t \<Rightarrow> Fin (of_int t))"

text \<open>Lines 113--122: the moisture half of the loop body.\<close>

definition fold_moisture :: "loop_vars \<Rightarrow> SensorReading \<Rightarrow> loop_vars" where
  "fold_moisture v reading =
     (let m = moisture reading
      in if Number_isFinite m
         then let v1 = v\<lparr>sum_v := js_add (sum_v v) m, count_v := js_add (count_v v) (Fin 1)\<rparr>;
                  v2 = (if js_lt m (min_v v1) then v1\<lparr>min_v := m\<rparr> else v1);
                  v3 = (if js_gt m (max_v v2) then v2\<lparr>max_v := m\<rparr> else v2)
              in v3
         else v)"

text \<open>Lines 124--134: the timestamp half of the loop body.\<close>

definition fold_time :: "(string \<Rightarrow> int option) \<Rightarrow> loop_vars \<Rightarrow> SensorReading \<Rightarrow> loop_vars" where
  "fold_time Date_parse v reading =
     (let parsedTime = parsed Date_parse (timestamp reading)
      in if \<not> Number_isNaN parsedTime
         then let v1 = (if js_gt parsedTime (latestTime v)
                        then v\<lparr>latestTime := parsedTime, latest_v := Some reading\<rparr> else v);
                  v2 = (if js_lt parsedTime (earliestTime v1)
                        then v1\<lparr>earliestTime := parsedTime, earliest_v := Some reading\<rparr> else v1)
              in v2
         else v)"

definition loop_body :: "(string \<Rightarrow> int option) \<Rightarrow> loop_vars \<Rightarrow> SensorReading \<Rightarrow> loop_vars" where
  "loop_body Date_parse v reading = fold_time Date_parse (fold_moisture v reading) reading"

text \<open>Lines 137--144: the moisture of a candidate, when there is one and it is finite.\<close>

definition finite_moisture :: "SensorReading option \<Rightarrow> jsnum option" where
  "finite_moisture r =
     (case r of None \<Rightarrow> None
      | Some x \<Rightarrow> if Number_isFinite (moisture x) then Some (moisture x) else None)"

text \<open>Lines 146--159: the returned object.\<close>

definition finish :: "loop_vars \<Rightarrow> SensorStatistics" where
  "finish v =
     (let latestMoisture = finite_moisture (latest_v v);
          earliestMoisture = finite_moisture (earliest_v v)
      in \<lparr>average = (if js_gt (count_v v) (Fin 0) then Some (js_div (sum_v v) (count_v v)) else None),
          min_stat = (if js_gt (count_v v) (Fin 0) then Some (min_v v) else None),
          max_stat = (if js_gt (count_v v) (Fin 0) then Some (max_v v) else None),
          range_stat = (if js_gt (count_v v) (Fin 0) then Some (js_sub (max_v v) (min_v v)) else None),
          trend = (case (latestMoisture, earliestMoisture) of
                     (Some l, Some e) \<Rightarrow> Some (js_sub l e) | _ \<Rightarrow> None),
          latest = latest_v v,
          earliest = earliest_v v,
          lastUpdated = (if js_gt (latestTime v) NInf then Some (latestTime v) else None)\<rparr>)"

definition computeStatistics :: "(string \<Rightarrow> int option) \<Rightarrow> SensorReading list \<Rightarrow> SensorStatistics" where
  "computeStatistics Date_parse data_in = finish (foldl (loop_body Date_parse) loop_init data_in)"

section \<open>Controllers in reachable states, and the inputs of the examples\<close>

text \<open>
  Every controller that the state mentions has been created: this holds initially and
  every operation keeps it.
\<close>

definition controllers_wf :: "hook_state \<Rightarrow> bool" where
  "controllers_wf st =
     ((\<forall>c \<in> aborted st. c < created st)
      \<and> (case controllerRef st of None \<Rightarrow> True | Some c \<Rightarrow> c < created st))"

text \<open>The transport resolved, or it threw the cancellation signal.\<close>

definition cancellation_or_success :: "js_error + SensorReadingsResponse \<Rightarrow> bool" where
  "cancellation_or_success settled =
     (case settled of Inl e \<Rightarrow> name e = ''AbortError'' | Inr _ \<Rightarrow> True)"

definition abort_error :: js_error where
  "abort_error = \<lparr>name = ''AbortError'', message = ''The operation was aborted.''\<rparr>"

definition http_500_error :: js_error where
  "http_500_error =
     \<lparr>name = ''Error'', message = ''Failed to fetch sensor readings: 500 Internal Server Error''\<rparr>"

definition sample_response :: SensorReadingsResponse where
  "sample_response =
     \<lparr>response_data = [\<lparr>timestamp = ''2024-01-01T00:00:00Z'', moisture = Fin 10\<rparr>],
      response_meta =
        \<lparr>totalItems = Fin 1, totalPages = Fin 1, meta_page = Fin 1, meta_limit = Fin 20\<rparr>\<rparr>"

definition load_request :: FetchRequest where
  "load_request = \<lparr>req_page = Fin 1, req_limit = Fin 20, withLoading = True\<rparr>"

definition refresh_request :: FetchRequest where
  "refresh_request = \<lparr>req_page = Fin 1, req_limit = Fin 20, withLoading = False\<rparr>"

text \<open>The hook as mounted with its defaults, and after its first load has been issued.\<close>

definition mounted :: hook_state where
  "mounted = useSensorReadings_init (Fin 1) (Fin 20) True"

definition loading :: hook_state where
  "loading = snd (fetchData_begin load_request mounted)"

text \<open>Then a refresh is issued (controller 1), and a second one (controller 2).\<close>

definition refreshing :: hook_state where
  "refreshing = snd (fetchData_begin refresh_request loading)"

definition refreshing_again :: hook_state where
  "refreshing_again = snd (fetchData_begin refresh_request refreshing)"

text \<open>Or the page is set to 2 while the first load is in flight, and page 2 is loaded.\<close>

definition page_two_request :: FetchRequest where
  "page_two_request = \<lparr>req_page = Fin 2, req_limit = Fin 20, withLoading = True\<rparr>"

definition loading_page_two :: hook_state where
  "loading_page_two =
     snd (fetchData_begin page_two_request (setPage (Value (Fin 2)) loading))"

text \<open>
  A request that is issued and whose transport call settles before anything else
  happens: \<open>fetchData\<close> run from its start to its end.
\<close>

definition fetchData :: "FetchRequest \<Rightarrow> js_error + SensorReadingsResponse \<Rightarrow> hook_state
      \<Rightarrow> SensorReadingsResponse option \<times> hook_state" where
  "fetchData req settled st =
     (let (call, st1) = fetchData_begin req st
      in fetchData_settle (call_controller call) (withLoading req) settled st1)"

text \<open>The number a setter works on: the argument itself, or the updater's result.\<close>

definition setter_value :: "setter_arg \<Rightarrow> jsnum \<Rightarrow> jsnum" where
  "setter_value arg current = (case arg of Updater f \<Rightarrow> f current | Value v \<Rightarrow> v)"

text \<open>A finite whole number that is at least \<open>k\<close>.\<close>

definition whole_at_least :: "int \<Rightarrow> jsnum \<Rightarrow> bool" where
  "whole_at_least k n = (case n of Fin x \<Rightarrow> x = of_int \<lfloor>x\<rfloor> \<and> of_int k \<le> x | _ \<Rightarrow> False)"

text \<open>The default endpoint, which has no query of its own, and some responses.\<close>

definition default_endpoint :: url where
  "default_endpoint =
     \<lparr>endpoint = ''http://localhost:8080/api/sensor-readings-alt'', searchParams = []\<rparr>"

definition one_reading_payload :: json where
  "one_reading_payload =
     JObj [(''data'', JArr [JObj [(''timestamp'', JStr ''2024-01-01T00:00:00Z''),
                                  (''moisture'', JNum (Fin 10))]]),
           (''meta'', JObj [(''totalItems'', JNum (Fin 1)), (''totalPages'', JNum (Fin 1)),
                            (''page'', JNum (Fin 1)), (''limit'', JNum (Fin 20))])]"

definition null_meta_payload :: json where
  "null_meta_payload = JObj [(''data'', JArr []), (''meta'', JNull)]"

definition ok_response :: "json \<Rightarrow> http_response" where
  "ok_response payload = \<lparr>status = 200, statusText = ''OK'', json_body = Inr payload\<rparr>"

text \<open>A 500 response whose body is an HTML page, so that decoding it would fail.\<close>

definition internal_error_response :: http_response where
  "internal_error_response =
     \<lparr>status = 500, statusText = ''Internal Server Error'',
      json_body = Inl \<lparr>name = ''SyntaxError'', message = ''Unexpected token <''\<rparr>\<rparr>"

section \<open>What the aggregator is compared with\<close>

text \<open>The times of the readings whose timestamp parses, in input order.\<close>

fun parsed_times :: "(string \<Rightarrow> int option) \<Rightarrow> SensorReading list \<Rightarrow> int list" where
  "parsed_times Date_parse [] = []"
| "parsed_times Date_parse (r # rs) =
     (case Date_parse (timestamp r) of
        None \<Rightarrow> parsed_times Date_parse rs
      | Some t \<Rightarrow> t # parsed_times Date_parse rs)"

text \<open>The first reading, in input order, whose timestamp parses to \<open>t\<close>.\<close>

definition first_at :: "(string \<Rightarrow> int option) \<Rightarrow> int \<Rightarrow> SensorReading list \<Rightarrow> SensorReading option" where
  "first_at Date_parse t rs = List.find (\<lambda>r. Date_parse (timestamp r) = Some t) rs"

text \<open>The finite moistures, in input order.\<close>

fun finite_moistures :: "SensorReading list \<Rightarrow> rat list" where
  "finite_moistures [] = []"
| "finite_moistures (r # rs) =
     (case moisture r of Fin x \<Rightarrow> x # finite_moistures rs | _ \<Rightarrow> finite_moistures rs)"

text \<open>The running sum and the running count over them, each step rounded as the loop does.\<close>

definition running_sum :: "rat list \<Rightarrow> jsnum" where
  "running_sum ms = foldl (\<lambda>s m. js_add s (Fin m)) (Fin 0) ms"

definition running_count :: "rat list \<Rightarrow> jsnum" where
  "running_count ms = foldl (\<lambda>c m. js_add c (Fin 1)) (Fin 0) ms"

text \<open>What the loop has in its four time variables after the readings \<open>xs\<close>.\<close>

definition times_inv :: "(string \<Rightarrow> int option) \<Rightarrow> SensorReading list \<Rightarrow> loop_vars \<Rightarrow> bool" where
  "times_inv P xs v =
     (if parsed_times P xs = []
      then latest_v v = None \<and> earliest_v v = None \<and> latestTime v = NInf \<and> earliestTime v = PInf
      else latestTime v = Fin (of_int (Max (set (parsed_times P xs))))
           \<and> latest_v v = first_at P (Max (set (parsed_times P xs))) xs
           \<and> earliestTime v = Fin (of_int (Min (set (parsed_times P xs))))
           \<and> earliest_v v = first_at P (Min (set (parsed_times P xs))) xs)"

text \<open>What the loop has in its four moisture variables after the readings \<open>xs\<close>.\<close>

definition moistures_inv :: "SensorReading list \<Rightarrow> loop_vars \<Rightarrow> bool" where
  "moistures_inv xs v =
     (sum_v v = running_sum (finite_moistures xs)
      \<and> count_v v = running_count (finite_moistures xs)
      \<and> (if finite_moistures xs = [] then min_v v = PInf \<and> max_v v = NInf
         else min_v v = Fin (Min (set (finite_moistures xs)))
              \<and> max_v v = Fin (Max (set (finite_moistures xs)))))"

text \<open>
  \<open>Date.parse\<close> on the timestamps of the examples: two spellings of one instant, and the
  day after.
\<close>

definition sample_Date_parse :: "string \<Rightarrow> int option" where
  "sample_Date_parse s =
     (if s = ''2024-01-01T00:00:00Z'' then Some 1704067200000
      else if s = ''2024-01-01T00:00:00.000Z'' then Some 1704067200000
      else if s = ''2024-01-02T00:00:00Z'' then Some 1704153600000
      else None)"

definition first_seen :: SensorReading where
  "first_seen = \<lparr>timestamp = ''2024-01-01T00:00:00Z'', moisture = Fin 10\<rparr>"

definition second_seen :: SensorReading where
  "second_seen = \<lparr>timestamp = ''2024-01-01T00:00:00.000Z'', moisture = Fin 20\<rparr>"

text \<open>The double nearest to 0.1, and a reading with that moisture.\<close>

definition tenth :: rat where
  "tenth = 3602879701896397 / 36028797018963968"

definition tenth_reading :: SensorReading where
  "tenth_reading = \<lparr>timestamp = ''2024-01-01T00:00:00Z'', moisture = Fin tenth\<rparr>"

text \<open>
  The doubles that the loop meets on three readings of moisture 0.1: the sums
  \<open>0.1 + 0.1\<close> and \<open>0.1 + 0.1 + 0.1\<close>, and the quotient of the latter by 3.
\<close>

definition two_tenths :: rat where
  "two_tenths = 3602879701896397 / 18014398509481984"

definition three_tenths :: rat where
  "three_tenths = 1351079888211149 / 4503599627370496"

definition mean_of_tenths :: rat where
  "mean_of_tenths = 7205759403792795 / 72057594037927936"


section \<open>The coordinator's controllers\<close>

lemma init_wf: "controllers_wf (useSensorReadings_init p l e)"
  by (simp add: controllers_wf_def useSensorReadings_init_def)

lemma begin_controller:
  "fetchData_begin req st = (call, st') \<Longrightarrow>
     call_controller call = created st \<and> controllerRef st' = Some (created st)
     \<and> created st' = Suc (created st)
     \<and> aborted st' = (case controllerRef st of None \<Rightarrow> aborted st | Some c \<Rightarrow> insert c (aborted st))"
  by (auto simp: fetchData_begin_def abort_current_def Let_def split: option.splits if_splits)

lemma begin_cells:
  "fetchData_begin req st = (call, st') \<Longrightarrow>
     call_page call = req_page req \<and> call_limit call = req_limit req
     \<and> data st' = data st \<and> meta st' = meta st \<and> error st' = error st
     \<and> page st' = page st \<and> limit st' = limit st
     \<and> isLoading st' = (withLoading req \<or> isLoading st)
     \<and> isRefreshing st' = (\<not> withLoading req \<or> isRefreshing st)"
  by (auto simp: fetchData_begin_def abort_current_def Let_def split: option.splits if_splits)

lemma begin_wf:
  "controllers_wf st \<Longrightarrow> fetchData_begin req st = (call, st') \<Longrightarrow>
     controllers_wf st' \<and> call_controller call \<notin> aborted st'"
  using begin_controller[of req st call st']
  by (auto simp: controllers_wf_def split: option.splits)

lemma settle_controllers:
  "fetchData_settle c wl settled st = (ret, st') \<Longrightarrow>
     controllerRef st' = controllerRef st \<and> aborted st' = aborted st \<and> created st' = created st"
  by (auto simp: fetchData_settle_def fetchData_try_def fetchData_finally_def Let_def
           split: sum.splits if_splits)

lemma settle_wf:
  "controllers_wf st \<Longrightarrow> controllers_wf (snd (fetchData_settle c wl settled st))"
  using settle_controllers[of c wl settled st]
  by (cases "fetchData_settle c wl settled st") (auto simp: controllers_wf_def split: option.splits)

lemma stale_settle:
  assumes "controllerRef st \<noteq> Some c" "cancellation_or_success settled"
  shows "fetchData_settle c wl settled st = (None, if wl then st else st\<lparr>isRefreshing := False\<rparr>)"
  using assms
  by (auto simp: fetchData_settle_def fetchData_try_def fetchData_finally_def Let_def
                 cancellation_or_success_def split: sum.splits)

lemma current_settle_success:
  assumes "controllerRef st = Some c" "c \<notin> aborted st"
  shows "fetchData_settle c wl (Inr response) st =
           (Some response,
            (if wl then (\<lambda>s. s\<lparr>isLoading := False\<rparr>) else (\<lambda>s. s\<lparr>isRefreshing := False\<rparr>))
              (st\<lparr>data := response_data response, meta := Some (response_meta response),
                  error := None\<rparr>))"
  using assms
  by (simp add: fetchData_settle_def fetchData_try_def fetchData_finally_def)

lemma sample_states:
  "mounted = \<lparr>page = Fin 1, limit = Fin 20, data = [], meta = None, isLoading = True,
              isRefreshing = False, error = None, controllerRef = None, aborted = {},
              created = 0\<rparr>"
  "loading = \<lparr>page = Fin 1, limit = Fin 20, data = [], meta = None, isLoading = True,
              isRefreshing = False, error = None, controllerRef = Some 0, aborted = {},
              created = 1\<rparr>"
  "refreshing = \<lparr>page = Fin 1, limit = Fin 20, data = [], meta = None, isLoading = True,
              isRefreshing = True, error = None, controllerRef = Some 1, aborted = {0},
              created = 2\<rparr>"
  "refreshing_again = \<lparr>page = Fin 1, limit = Fin 20, data = [], meta = None, isLoading = True,
              isRefreshing = True, error = None, controllerRef = Some 2, aborted = {0, 1},
              created = 3\<rparr>"
proof -
  show m: "mounted = \<lparr>page = Fin 1, limit = Fin 20, data = [], meta = None, isLoading = True,
              isRefreshing = False, error = None, controllerRef = None, aborted = {},
              created = 0\<rparr>"
    by (simp add: mounted_def useSensorReadings_init_def sanitizePositiveInteger_def)
  show l: "loading = \<lparr>page = Fin 1, limit = Fin 20, data = [], meta = None, isLoading = True,
              isRefreshing = False, error = None, controllerRef = Some 0, aborted = {},
              created = 1\<rparr>"
    by (simp add: loading_def m fetchData_begin_def abort_current_def load_request_def)
  show r: "refreshing = \<lparr>page = Fin 1, limit = Fin 20, data = [], meta = None, isLoading = True,
              isRefreshing = True, error = None, controllerRef = Some 1, aborted = {0},
              created = 2\<rparr>"
    by (simp add: refreshing_def l fetchData_begin_def abort_current_def refresh_request_def)
  show "refreshing_again = \<lparr>page = Fin 1, limit = Fin 20, data = [], meta = None, isLoading = True,
              isRefreshing = True, error = None, controllerRef = Some 2, aborted = {0, 1},
              created = 3\<rparr>"
    by (simp add: refreshing_again_def r fetchData_begin_def abort_current_def refresh_request_def
                  insert_commute)
qed

section \<open>Supersession, errors and \<open>refetch\<close>\<close>

lemma setter_controllers:
  "controllerRef (apply_setter st c) = controllerRef st \<and> aborted (apply_setter st c) = aborted st
   \<and> created (apply_setter st c) = created st"
proof (cases c)
  case (SetPage arg)
  then show ?thesis by (simp add: setPage_def Let_def)
next
  case (SetLimit arg)
  then show ?thesis by (simp add: setLimit_def Let_def)
qed

lemma disable_controllers:
  "controllerRef (disable_effect st) = controllerRef st \<and> created (disable_effect st) = created st
   \<and> aborted (disable_effect st)
       = (case controllerRef st of None \<Rightarrow> aborted st | Some c \<Rightarrow> insert c (aborted st))"
  by (simp add: disable_effect_def abort_current_def split: option.splits)

lemma event_wf:
  assumes "controllers_wf st"
  shows "controllers_wf (apply_event st e)"
proof (cases e)
  case (Issued req)
  then show ?thesis
    using begin_wf[OF assms, of req "fst (fetchData_begin req st)" "snd (fetchData_begin req st)"]
    by simp
next
  case (Settled c wl settled)
  then show ?thesis using settle_wf[OF assms] by simp
next
  case (SetterCalled c)
  then show ?thesis
    using assms setter_controllers[of st c]
    by (auto simp: controllers_wf_def split: option.splits)
next
  case Disabled
  then show ?thesis
    using assms disable_controllers[of st]
    by (auto simp: controllers_wf_def split: option.splits)
qed

lemma events_wf: "controllers_wf st \<Longrightarrow> controllers_wf (foldl apply_event st es)"
  by (induction es arbitrary: st) (simp_all add: event_wf)

text \<open>
  A controller that has been created and is not the current one stays so, whatever
  happens: controllers are numbered in the order of their creation, and only a newly
  created one becomes current.
\<close>

lemma event_keeps_superseded:
  assumes "a < created st" "controllerRef st \<noteq> Some a"
  shows "a < created (apply_event st e) \<and> controllerRef (apply_event st e) \<noteq> Some a"
proof (cases e)
  case (Issued req)
  obtain call st' where Bg: "fetchData_begin req st = (call, st')"
    by (cases "fetchData_begin req st")
  show ?thesis using assms begin_controller[OF Bg] by (simp add: Issued Bg)
next
  case (Settled c wl settled)
  obtain ret st' where St: "fetchData_settle c wl settled st = (ret, st')"
    by (cases "fetchData_settle c wl settled st")
  show ?thesis using assms settle_controllers[OF St] by (simp add: Settled St)
next
  case (SetterCalled c)
  then show ?thesis using assms setter_controllers[of st c] by simp
next
  case Disabled
  then show ?thesis using assms disable_controllers[of st] by simp
qed

lemma events_keep_superseded:
  "a < created st \<Longrightarrow> controllerRef st \<noteq> Some a \<Longrightarrow>
     a < created (foldl apply_event st es) \<and> controllerRef (foldl apply_event st es) \<noteq> Some a"
proof (induction es arbitrary: st)
  case Nil
  then show ?case by simp
next
  case (Cons e es)
  show ?case
    using Cons.IH[of "apply_event st e"] event_keeps_superseded[OF Cons.prems] by simp
qed

lemma event_created: "a < created st \<Longrightarrow> a < created (apply_event st e)"
proof (cases e)
  case (Issued req)
  obtain call st' where Bg: "fetchData_begin req st = (call, st')"
    by (cases "fetchData_begin req st")
  assume "a < created st"
  then show ?thesis using begin_controller[OF Bg] by (simp add: Issued Bg)
next
  case (Settled c wl settled)
  obtain ret st' where St: "fetchData_settle c wl settled st = (ret, st')"
    by (cases "fetchData_settle c wl settled st")
  assume "a < created st"
  then show ?thesis using settle_controllers[OF St] by (simp add: Settled St)
next
  case (SetterCalled c)
  assume "a < created st"
  then show ?thesis using setter_controllers[of st c] by (simp add: SetterCalled)
next
  case Disabled
  assume "a < created st"
  then show ?thesis using disable_controllers[of st] by (simp add: Disabled)
qed

lemma events_created: "a < created st \<Longrightarrow> a < created (foldl apply_event st es)"
  by (induction es arbitrary: st) (simp_all add: event_created)

text \<open>What a request that is not the current one may still write when it settles.\<close>

lemma stale_settle_cells:
  assumes "controllerRef st \<noteq> Some c"
  shows "fst (fetchData_settle c wl settled st) = None
         \<and> data (snd (fetchData_settle c wl settled st)) = data st
         \<and> meta (snd (fetchData_settle c wl settled st)) = meta st
         \<and> isLoading (snd (fetchData_settle c wl settled st)) = isLoading st
         \<and> page (snd (fetchData_settle c wl settled st)) = page st
         \<and> limit (snd (fetchData_settle c wl settled st)) = limit st"
  using assms
  by (auto simp: fetchData_settle_def fetchData_try_def fetchData_finally_def Let_def
           split: sum.splits)

text \<open>
  Claim C1, as the code has it. Request A is issued; then anything happens (setter
  calls, other requests, settlements, disabling); then request B is issued; then again
  anything happens. When A's transport call settles after that, in whatever way, A
  returns \<open>null\<close> and writes neither \<open>data\<close> nor \<open>meta\<close> nor \<open>isLoading\<close>. When it
  resolved or threw the cancellation signal, A writes no \<open>error\<close> either: a loading
  request A leaves the state as it is, and a refreshing request A sets \<open>isRefreshing\<close>
  to false and changes nothing else. Request B, when it resolves before anything else
  happens, returns its payload and writes \<open>data\<close>, \<open>meta\<close>, \<open>error = null\<close> and its
  own flag. (What a superseded A writes when it throws another error is not part of
  the statement.)
\<close>

theorem superseded_request_commits_nothing:
  assumes A: "fetchData_begin reqA s0 = (callA, s1)"
      and B: "fetchData_begin reqB (foldl apply_event s1 between) = (callB, s2)"
  shows "(\<forall>afterwards settledA.
            let s3 = foldl apply_event s2 afterwards;
                (returned, s4) = fetchData_settle (call_controller callA) (withLoading reqA) settledA s3
            in returned = None \<and> data s4 = data s3 \<and> meta s4 = meta s3
               \<and> isLoading s4 = isLoading s3
               \<and> (cancellation_or_success settledA \<longrightarrow>
                    s4 = (if withLoading reqA then s3 else s3\<lparr>isRefreshing := False\<rparr>)))
       \<and> (controllers_wf s0 \<longrightarrow>
            (\<forall>response.
               let (returned, s3) =
                     fetchData_settle (call_controller callB) (withLoading reqB) (Inr response) s2
               in returned = Some response \<and> data s3 = response_data response
                  \<and> meta s3 = Some (response_meta response) \<and> error s3 = None
                  \<and> (if withLoading reqB then \<not> isLoading s3 else \<not> isRefreshing s3)))"
proof (intro conjI allI impI)
  fix afterwards settledA
  define sb where "sb = foldl apply_event s1 between"
  define s3 where "s3 = foldl apply_event s2 afterwards"
  have a: "call_controller callA = created s0" and s1: "created s1 = Suc (created s0)"
    using begin_controller[OF A] by simp_all
  have "call_controller callA < created s1" using a s1 by simp
  then have before_b: "call_controller callA < created sb"
    unfolding sb_def by (rule events_created)
  have Bsb: "fetchData_begin reqB sb = (callB, s2)" using B by (simp add: sb_def)
  have s2: "controllerRef s2 = Some (created sb)" "created s2 = Suc (created sb)"
    using begin_controller[OF Bsb] by simp_all
  have "call_controller callA < created s2" "controllerRef s2 \<noteq> Some (call_controller callA)"
    using before_b s2 by simp_all
  then have stale: "controllerRef s3 \<noteq> Some (call_controller callA)"
    unfolding s3_def using events_keep_superseded by blast
  obtain returned s4 where
    St: "fetchData_settle (call_controller callA) (withLoading reqA) settledA s3 = (returned, s4)"
    by (cases "fetchData_settle (call_controller callA) (withLoading reqA) settledA s3")
  have cells: "returned = None \<and> data s4 = data s3 \<and> meta s4 = meta s3 \<and> isLoading s4 = isLoading s3"
    using stale_settle_cells[OF stale, of "withLoading reqA" settledA] St by simp
  have quiet: "s4 = (if withLoading reqA then s3 else s3\<lparr>isRefreshing := False\<rparr>)"
    if "cancellation_or_success settledA"
    using stale_settle[OF stale that, of "withLoading reqA"] St by simp
  show "let s3 = foldl apply_event s2 afterwards;
            (returned, s4) = fetchData_settle (call_controller callA) (withLoading reqA) settledA s3
        in returned = None \<and> data s4 = data s3 \<and> meta s4 = meta s3
           \<and> isLoading s4 = isLoading s3
           \<and> (cancellation_or_success settledA \<longrightarrow>
                s4 = (if withLoading reqA then s3 else s3\<lparr>isRefreshing := False\<rparr>))"
    using cells quiet by (simp add: s3_def[symmetric] St)
next
  fix response
  assume wf: "controllers_wf s0"
  have wf1: "controllers_wf s1" using begin_wf[OF wf A] by simp
  have wfb: "controllers_wf (foldl apply_event s1 between)" using wf1 by (rule events_wf)
  have fresh: "call_controller callB \<notin> aborted s2" using begin_wf[OF wfb B] by simp
  have cur: "controllerRef s2 = Some (call_controller callB)"
    using begin_controller[OF B] by simp
  show "let (returned, s3) =
              fetchData_settle (call_controller callB) (withLoading reqB) (Inr response) s2
        in returned = Some response \<and> data s3 = response_data response
           \<and> meta s3 = Some (response_meta response) \<and> error s3 = None
           \<and> (if withLoading reqB then \<not> isLoading s3 else \<not> isRefreshing s3)"
    by (simp add: current_settle_success[OF cur fresh])
qed

lemma loading_page_two_state:
  "loading_page_two = \<lparr>page = Fin 2, limit = Fin 20, data = [], meta = None, isLoading = True,
              isRefreshing = False, error = None, controllerRef = Some 1, aborted = {0},
              created = 2\<rparr>"
  by (simp add: loading_page_two_def sample_states setPage_def sanitizePositiveInteger_def
                fetchData_begin_def abort_current_def page_two_request_def)

text \<open>
  The theorem at the first load of the mounted hook (A, controller 0), followed by
  \<open>setPage(2)\<close> and the load of page 2 (B, controller 1): A's late response for page 1
  changes nothing, and B's response is returned.
\<close>

theorem superseded_request_commits_nothing_witness:
  "fetchData_begin load_request mounted
     = (\<lparr>call_page = Fin 1, call_limit = Fin 20, call_controller = 0\<rparr>, loading)
   \<and> fetchData_begin page_two_request
        (foldl apply_event loading [SetterCalled (SetPage (Value (Fin 2)))])
     = (\<lparr>call_page = Fin 2, call_limit = Fin 20, call_controller = 1\<rparr>, loading_page_two)
   \<and> cancellation_or_success (Inr sample_response)
   \<and> controllers_wf mounted
   \<and> fetchData_settle 0 True (Inr sample_response) loading_page_two = (None, loading_page_two)
   \<and> fst (fetchData_settle 1 True (Inr sample_response) loading_page_two) = Some sample_response"
proof -
  have A: "fetchData_begin load_request mounted
             = (\<lparr>call_page = Fin 1, call_limit = Fin 20, call_controller = 0\<rparr>, loading)"
    by (simp add: sample_states fetchData_begin_def abort_current_def load_request_def)
  have B: "fetchData_begin page_two_request
             (foldl apply_event loading [SetterCalled (SetPage (Value (Fin 2)))])
           = (\<lparr>call_page = Fin 2, call_limit = Fin 20, call_controller = 1\<rparr>, loading_page_two)"
    by (simp add: loading_page_two_state)
       (simp add: sample_states setPage_def sanitizePositiveInteger_def fetchData_begin_def
                  abort_current_def page_two_request_def)
  have ok: "cancellation_or_success (Inr sample_response)"
    by (simp add: cancellation_or_success_def)
  have wf: "controllers_wf mounted"
    by (simp add: mounted_def init_wf)
  note T = superseded_request_commits_nothing[OF A B]
  have 1: "fetchData_settle 0 True (Inr sample_response) loading_page_two
             = (None, loading_page_two)"
    using T[THEN conjunct1, THEN spec, THEN spec, of "[]" "Inr sample_response"] ok
    by (cases "fetchData_settle 0 True (Inr sample_response) loading_page_two")
       (simp add: load_request_def)
  have 2: "fst (fetchData_settle 1 True (Inr sample_response) loading_page_two)
             = Some sample_response"
    using T[THEN conjunct2, THEN mp, OF wf, THEN spec, of sample_response]
    by (cases "fetchData_settle 1 True (Inr sample_response) loading_page_two")
       (simp add: page_two_request_def)
  show ?thesis
    using A B ok wf 1 2 by simp
qed

text \<open>
  Claim C1 as stated fails, in two ways. First, a refresh (controller 1) is in flight
  when a second refresh (controller 2) is issued, which aborts the first. The first
  then throws the cancellation signal, and its \<open>finally\<close> block turns \<open>isRefreshing\<close>
  off although the second refresh is still in flight. Second, the first load
  (controller 0) has been superseded by a refresh (controller 1) when its transport
  call throws an HTTP error: the \<open>catch\<close> block stores the error although the request
  is not the latest one.
\<close>

theorem superseded_request_counterexample:
  "controllerRef refreshing_again = Some 2 \<and> 1 \<in> aborted refreshing_again
   \<and> isRefreshing refreshing_again
   \<and> \<not> isRefreshing (snd (fetchData_settle 1 False (Inl abort_error) refreshing_again))
   \<and> controllerRef refreshing = Some 1 \<and> 0 \<in> aborted refreshing
   \<and> error refreshing = None
   \<and> error (snd (fetchData_settle 0 True (Inl http_500_error) refreshing)) = Some http_500_error"
proof -
  have 1: "snd (fetchData_settle 1 False (Inl abort_error) refreshing_again)
          = refreshing_again\<lparr>isRefreshing := False\<rparr>"
    by (simp add: sample_states fetchData_settle_def fetchData_try_def fetchData_finally_def
                  abort_error_def)
  have 2: "error (snd (fetchData_settle 0 True (Inl http_500_error) refreshing))
          = Some http_500_error"
    by (simp add: sample_states fetchData_settle_def fetchData_try_def fetchData_finally_def
                  http_500_error_def)
  have 3: "\<not> isRefreshing (snd (fetchData_settle 1 False (Inl abort_error) refreshing_again))"
    by (simp only: 1) simp
  have 4: "controllerRef refreshing_again = Some 2 \<and> 1 \<in> aborted refreshing_again
           \<and> isRefreshing refreshing_again"
    by (simp add: sample_states)
  have 5: "controllerRef refreshing = Some 1 \<and> 0 \<in> aborted refreshing \<and> error refreshing = None"
    by (simp add: sample_states)
  show ?thesis
    using 2 3 4 5 by blast
qed

lemma fetchData_resolved:
  assumes "controllers_wf st"
  shows "fetchData req (Inr response) st =
           (Some response,
            (if withLoading req then (\<lambda>s. s\<lparr>isLoading := False\<rparr>)
             else (\<lambda>s. s\<lparr>isRefreshing := False\<rparr>))
              ((snd (fetchData_begin req st))\<lparr>data := response_data response,
                  meta := Some (response_meta response), error := None\<rparr>))"
proof -
  obtain call st1 where Bg: "fetchData_begin req st = (call, st1)"
    by (cases "fetchData_begin req st")
  have cur: "controllerRef st1 = Some (call_controller call)"
    using begin_controller[OF Bg] by simp
  have fresh: "call_controller call \<notin> aborted st1"
    using begin_wf[OF assms Bg] by simp
  show ?thesis
    by (simp add: fetchData_def Bg current_settle_success[OF cur fresh])
qed

text \<open>
  Claim C3. When the transport throws an error other than the cancellation signal,
  \<open>fetchData\<close> returns \<open>null\<close>, sets \<open>error\<close> to that error and leaves \<open>data\<close> and
  \<open>meta\<close> as they were; a loading request that is still the latest one turns
  \<open>isLoading\<close> off. The next request issued, once it resolves, returns its payload,
  stores it and resets \<open>error\<close> to \<open>null\<close>.
\<close>

theorem failure_sets_error_keeps_data:
  assumes "name e \<noteq> ''AbortError''"
  shows "fst (fetchData_settle c wl (Inl e) st) = None
       \<and> error (snd (fetchData_settle c wl (Inl e) st)) = Some e
       \<and> data (snd (fetchData_settle c wl (Inl e) st)) = data st
       \<and> meta (snd (fetchData_settle c wl (Inl e) st)) = meta st
       \<and> (wl \<and> controllerRef st = Some c \<longrightarrow> \<not> isLoading (snd (fetchData_settle c wl (Inl e) st)))
       \<and> (controllers_wf st \<longrightarrow>
            (\<forall>req response.
               fst (fetchData req (Inr response) (snd (fetchData_settle c wl (Inl e) st)))
                 = Some response
               \<and> error (snd (fetchData req (Inr response) (snd (fetchData_settle c wl (Inl e) st))))
                 = None
               \<and> data (snd (fetchData req (Inr response) (snd (fetchData_settle c wl (Inl e) st))))
                 = response_data response
               \<and> meta (snd (fetchData req (Inr response) (snd (fetchData_settle c wl (Inl e) st))))
                 = Some (response_meta response)))"
proof -
  have cells: "fst (fetchData_settle c wl (Inl e) st) = None
       \<and> error (snd (fetchData_settle c wl (Inl e) st)) = Some e
       \<and> data (snd (fetchData_settle c wl (Inl e) st)) = data st
       \<and> meta (snd (fetchData_settle c wl (Inl e) st)) = meta st
       \<and> (wl \<and> controllerRef st = Some c \<longrightarrow> \<not> isLoading (snd (fetchData_settle c wl (Inl e) st)))"
    using assms
    by (simp add: fetchData_settle_def fetchData_try_def fetchData_finally_def Let_def)
  have next_ok: "fst (fetchData req (Inr response) (snd (fetchData_settle c wl (Inl e) st)))
                   = Some response
       \<and> error (snd (fetchData req (Inr response) (snd (fetchData_settle c wl (Inl e) st)))) = None
       \<and> data (snd (fetchData req (Inr response) (snd (fetchData_settle c wl (Inl e) st))))
           = response_data response
       \<and> meta (snd (fetchData req (Inr response) (snd (fetchData_settle c wl (Inl e) st))))
           = Some (response_meta response)"
    if wf: "controllers_wf st" for req response
    by (simp add: fetchData_resolved[OF settle_wf[OF wf]])
  show ?thesis
    using cells next_ok by blast
qed

text \<open>
  The theorem at the first load of the mounted hook answered with HTTP 500: \<open>error\<close> is
  set, \<open>isLoading\<close> goes from true to false, \<open>data\<close> stays empty, and the refresh that
  follows clears the error.
\<close>

theorem failure_sets_error_keeps_data_witness:
  "name http_500_error \<noteq> ''AbortError'' \<and> controllers_wf loading
   \<and> isLoading loading \<and> data loading = []
   \<and> error (snd (fetchData_settle 0 True (Inl http_500_error) loading)) = Some http_500_error
   \<and> data (snd (fetchData_settle 0 True (Inl http_500_error) loading)) = []
   \<and> \<not> isLoading (snd (fetchData_settle 0 True (Inl http_500_error) loading))
   \<and> error (snd (fetchData refresh_request (Inr sample_response)
               (snd (fetchData_settle 0 True (Inl http_500_error) loading)))) = None"
proof -
  have h: "name http_500_error \<noteq> ''AbortError''"
    by (simp add: http_500_error_def)
  have wf: "controllers_wf loading"
    by (simp add: sample_states controllers_wf_def)
  have cur: "controllerRef loading = Some 0" "isLoading loading" "data loading = []"
    by (simp_all add: sample_states)
  show ?thesis
    using failure_sets_error_keeps_data[OF h, of 0 True loading] h wf cur
    by simp
qed

text \<open>
  Claim C5. When the transport throws the cancellation signal (an error named
  \<open>AbortError\<close>), \<open>fetchData\<close> returns \<open>null\<close> and leaves \<open>error\<close>, \<open>data\<close> and \<open>meta\<close>
  as they were.
\<close>

theorem cancellation_never_sets_error:
  assumes "name e = ''AbortError''"
  shows "fst (fetchData_settle c wl (Inl e) st) = None
         \<and> error (snd (fetchData_settle c wl (Inl e) st)) = error st
         \<and> data (snd (fetchData_settle c wl (Inl e) st)) = data st
         \<and> meta (snd (fetchData_settle c wl (Inl e) st)) = meta st"
  using assms
  by (simp add: fetchData_settle_def fetchData_try_def fetchData_finally_def Let_def)

theorem cancellation_never_sets_error_witness:
  "name abort_error = ''AbortError''
   \<and> error (snd (fetchData_settle 0 True (Inl abort_error) refreshing)) = None
   \<and> error (snd (fetchData_settle 0 True (Inl abort_error)
                (loading\<lparr>error := Some http_500_error\<rparr>))) = Some http_500_error"
proof -
  have h: "name abort_error = ''AbortError''" by (simp add: abort_error_def)
  show ?thesis
    using cancellation_never_sets_error[OF h, of 0 True refreshing]
          cancellation_never_sets_error[OF h, of 0 True "loading\<lparr>error := Some http_500_error\<rparr>"]
          h
    by (simp add: sample_states)
qed

text \<open>
  Claim C4. \<open>refetch()\<close> calls the transport with the current page and limit, turns
  \<open>isRefreshing\<close> on and leaves \<open>isLoading\<close> as it is, at its start and when it
  settles in whatever state the hook is in by then. It cannot throw: it returns the
  payload when the transport resolved and the request is still the current one and not
  aborted, and \<open>null\<close> when the transport threw anything or the request was cancelled or
  superseded. When nothing intervenes, a resolved \<open>refetch\<close> returns its payload.
\<close>

theorem refetch_returns_payload_or_null:
  assumes "refetch_begin st = (call, st1)"
  shows "call_page call = page st \<and> call_limit call = limit st
       \<and> isRefreshing st1 \<and> isLoading st1 = isLoading st
       \<and> (\<forall>settled s. isLoading (snd (fetchData_settle (call_controller call) False settled s))
                        = isLoading s)
       \<and> (\<forall>e s. fst (fetchData_settle (call_controller call) False (Inl e) s) = None)
       \<and> (\<forall>response s.
            fst (fetchData_settle (call_controller call) False (Inr response) s)
              = (if call_controller call \<in> aborted s
                    \<or> controllerRef s \<noteq> Some (call_controller call)
                 then None else Some response))
       \<and> (controllers_wf st \<longrightarrow>
            (\<forall>response.
               fst (fetchData_settle (call_controller call) False (Inr response) st1)
                 = Some response))"
proof -
  have Bg: "fetchData_begin \<lparr>req_page = page st, req_limit = limit st, withLoading = False\<rparr> st
              = (call, st1)"
    using assms by (simp add: refetch_begin_def)
  have 1: "call_page call = page st \<and> call_limit call = limit st
           \<and> isRefreshing st1 \<and> isLoading st1 = isLoading st"
    using begin_cells[OF Bg] by simp
  have 2: "isLoading (snd (fetchData_settle (call_controller call) False settled s)) = isLoading s"
    for settled s
    by (simp add: fetchData_settle_def fetchData_try_def fetchData_finally_def Let_def
             split: sum.splits)
  have 3: "fst (fetchData_settle (call_controller call) False (Inl e) s) = None" for e s
    by (simp add: fetchData_settle_def fetchData_try_def)
  have 4: "fst (fetchData_settle (call_controller call) False (Inr response) s)
             = (if call_controller call \<in> aborted s
                   \<or> controllerRef s \<noteq> Some (call_controller call)
                then None else Some response)" for response s
    by (simp add: fetchData_settle_def fetchData_try_def)
  have 5: "fst (fetchData_settle (call_controller call) False (Inr response) st1) = Some response"
    if wf: "controllers_wf st" for response
  proof -
    have cur: "controllerRef st1 = Some (call_controller call)"
      using begin_controller[OF Bg] by simp
    have fresh: "call_controller call \<notin> aborted st1"
      using begin_wf[OF wf Bg] by simp
    show ?thesis
      by (simp add: current_settle_success[OF cur fresh])
  qed
  show ?thesis
    using 1 2 3 4 5 by blast
qed

text \<open>
  The theorem at a \<open>refetch()\<close> made while the first load is in flight: it asks for
  page 1 with limit 20 under controller 1, returns the payload when it resolves and
  \<open>null\<close> when it is rejected.
\<close>

theorem refetch_returns_payload_or_null_witness:
  "refetch_begin loading
     = (\<lparr>call_page = Fin 1, call_limit = Fin 20, call_controller = 1\<rparr>, refreshing)
   \<and> controllers_wf loading
   \<and> fst (fetchData_settle 1 False (Inr sample_response) refreshing) = Some sample_response
   \<and> fst (fetchData_settle 1 False (Inl http_500_error) refreshing) = None
   \<and> fst (fetchData_settle 1 False (Inl abort_error) refreshing) = None
   \<and> isLoading (snd (fetchData_settle 1 False (Inr sample_response) refreshing))
       = isLoading refreshing"
proof -
  have Bg: "refetch_begin loading
              = (\<lparr>call_page = Fin 1, call_limit = Fin 20, call_controller = 1\<rparr>, refreshing)"
    by (simp add: refetch_begin_def sample_states fetchData_begin_def abort_current_def)
  have wf: "controllers_wf loading"
    by (simp add: sample_states controllers_wf_def)
  have c: "call_controller \<lparr>call_page = Fin 1, call_limit = Fin 20, call_controller = 1\<rparr> = 1"
    by simp
  note T = refetch_returns_payload_or_null[OF Bg, unfolded c]
  have r1: "fst (fetchData_settle 1 False (Inr sample_response) refreshing) = Some sample_response"
    using T wf by blast
  have r2: "fst (fetchData_settle 1 False (Inl http_500_error) refreshing) = None"
    using T by blast
  have r3: "fst (fetchData_settle 1 False (Inl abort_error) refreshing) = None"
    using T by blast
  have r4: "isLoading (snd (fetchData_settle 1 False (Inr sample_response) refreshing))
              = isLoading refreshing"
    using T by blast
  show ?thesis
    using Bg wf r1 r2 r3 r4 by simp
qed

section \<open>The aggregator on the empty sequence\<close>

text \<open>
  Claim C9. On the empty sequence of readings the aggregator returns \<open>null\<close> for the
  average, the minimum, the maximum, the range, the trend, the latest and the earliest
  reading and the time of the last update.
\<close>

theorem computeStatistics_empty:
  "computeStatistics Date_parse [] =
     \<lparr>average = None, min_stat = None, max_stat = None, range_stat = None, trend = None,
      latest = None, earliest = None, lastUpdated = None\<rparr>"
  by (simp add: computeStatistics_def finish_def loop_init_def finite_moisture_def js_gt_def)

section \<open>The sanitizer and the setters\<close>

lemma sanitizePositiveInteger_cases:
  "sanitizePositiveInteger v fallback allowZero =
     (case v of
        Fin x \<Rightarrow> if allowZero then (if x < 0 then fallback else Fin (of_int \<lfloor>x\<rfloor>))
                 else (if x < 1 then fallback else Fin (of_int \<lfloor>x\<rfloor>))
      | _ \<Rightarrow> fallback)"
proof (cases v)
  case (Fin x)
  have lt: "(of_int \<lfloor>x\<rfloor> < (0::rat)) = (x < 0)"
    by (simp add: floor_less_iff)
  have le: "(of_int \<lfloor>x\<rfloor> = (0::rat) \<or> of_int \<lfloor>x\<rfloor> < (0::rat)) = (x < 1)"
  proof -
    have "(of_int f = (0::rat) \<or> of_int f < (0::rat)) = (f \<le> 0)" for f :: int
      by auto
    then have "(of_int \<lfloor>x\<rfloor> = (0::rat) \<or> of_int \<lfloor>x\<rfloor> < (0::rat)) = (\<lfloor>x\<rfloor> \<le> 0)"
      by blast
    also have "\<dots> = (x < 1)"
      by (simp add: floor_le_iff)
    finally show ?thesis .
  qed
  show ?thesis
    using lt le by (simp add: Fin sanitizePositiveInteger_def Let_def)
qed (simp_all add: sanitizePositiveInteger_def)

lemma sanitized_page_whole: "whole_at_least 0 (sanitizePositiveInteger v (Fin 1) True)"
  by (cases v) (simp_all add: sanitizePositiveInteger_cases whole_at_least_def)

lemma sanitized_limit_whole: "whole_at_least 1 (sanitizePositiveInteger v (Fin 20) False)"
proof (cases v)
  case (Fin x)
  show ?thesis
  proof (cases "x < 1")
    case True
    then show ?thesis by (simp add: Fin sanitizePositiveInteger_cases whole_at_least_def)
  next
    case False
    then have "1 \<le> \<lfloor>x\<rfloor>" by (simp add: le_floor_iff)
    then have "(1::rat) \<le> of_int \<lfloor>x\<rfloor>" by (metis of_int_1 of_int_le_iff)
    then show ?thesis
      using False by (simp add: Fin sanitizePositiveInteger_cases whole_at_least_def)
  qed
qed (simp_all add: sanitizePositiveInteger_cases whole_at_least_def)

lemma apply_setter_whole:
  assumes "whole_at_least 0 (page st) \<and> whole_at_least 1 (limit st)"
  shows "whole_at_least 0 (page (apply_setter st c)) \<and> whole_at_least 1 (limit (apply_setter st c))"
  using assms
  by (cases c) (simp_all add: setPage_def setLimit_def sanitized_page_whole sanitized_limit_whole)

lemma setters_whole:
  assumes "whole_at_least 0 (page st) \<and> whole_at_least 1 (limit st)"
  shows "whole_at_least 0 (page (foldl apply_setter st calls))
         \<and> whole_at_least 1 (limit (foldl apply_setter st calls))"
  using assms
proof (induction calls arbitrary: st)
  case Nil
  then show ?case by simp
next
  case (Cons c calls)
  show ?case
    using Cons.IH[OF apply_setter_whole[OF Cons.prems]] by simp
qed

text \<open>
  Claim C2, as the code has it. Whatever the configuration and the run of
  \<open>setPage\<close>/\<open>setLimit\<close> calls, with numbers or updaters, \<open>page\<close> is a whole number at
  least 0 and \<open>limit\<close> a whole number at least 1. A setter given a non-finite number
  (\<open>NaN\<close> or an infinity) stores the fallback, 1 for the page and 20 for the limit;
  given a finite number it stores the floor of it, except that \<open>setPage\<close> stores the
  fallback 1 for a number below 0 and \<open>setLimit\<close> the fallback 20 for a number below 1.
  So \<open>setPage\<close> keeps 0, and turns a number between 0 and 1 into 0.
\<close>

theorem setters_sanitize:
  "whole_at_least 0 (page (foldl apply_setter
       (useSensorReadings_init initialPage initialLimit enabled) calls))
   \<and> whole_at_least 1 (limit (foldl apply_setter
       (useSensorReadings_init initialPage initialLimit enabled) calls))
   \<and> page (setPage arg st) =
       (case setter_value arg (page st) of
          Fin x \<Rightarrow> if x < 0 then Fin 1 else Fin (of_int \<lfloor>x\<rfloor>)
        | _ \<Rightarrow> Fin 1)
   \<and> limit (setLimit arg st) =
       (case setter_value arg (limit st) of
          Fin x \<Rightarrow> if x < 1 then Fin 20 else Fin (of_int \<lfloor>x\<rfloor>)
        | _ \<Rightarrow> Fin 20)"
proof -
  have init: "whole_at_least 0 (page (useSensorReadings_init initialPage initialLimit enabled))
              \<and> whole_at_least 1 (limit (useSensorReadings_init initialPage initialLimit enabled))"
    by (simp add: useSensorReadings_init_def sanitized_page_whole sanitized_limit_whole)
  have p: "page (setPage arg st) =
       (case setter_value arg (page st) of
          Fin x \<Rightarrow> if x < 0 then Fin 1 else Fin (of_int \<lfloor>x\<rfloor>)
        | _ \<Rightarrow> Fin 1)"
    by (simp add: setPage_def setter_value_def sanitizePositiveInteger_cases
             split: setter_arg.splits jsnum.splits)
  have l: "limit (setLimit arg st) =
       (case setter_value arg (limit st) of
          Fin x \<Rightarrow> if x < 1 then Fin 20 else Fin (of_int \<lfloor>x\<rfloor>)
        | _ \<Rightarrow> Fin 20)"
    by (simp add: setLimit_def setter_value_def sanitizePositiveInteger_cases
             split: setter_arg.splits jsnum.splits)
  show ?thesis
    using setters_whole[OF init] p l by simp
qed

text \<open>
  The theorem at some calls on the mounted hook: \<open>setPage(2.5)\<close> stores 2,
  \<open>setPage(NaN)\<close> and \<open>setPage(-1)\<close> store 1, \<open>setLimit(0)\<close> and \<open>setLimit(Infinity)\<close>
  store 20, and the updater \<open>p \<Rightarrow> -p\<close> of \<open>setPage\<close> on page 1 stores 1.
\<close>

theorem setters_sanitize_witness:
  "page (setPage (Value (Fin (5 / 2))) mounted) = Fin 2
   \<and> page (setPage (Value NaN) mounted) = Fin 1
   \<and> page (setPage (Value (Fin (- 1))) mounted) = Fin 1
   \<and> limit (setLimit (Value (Fin 0)) mounted) = Fin 20
   \<and> limit (setLimit (Value PInf) mounted) = Fin 20
   \<and> page (setPage (Updater js_neg) mounted) = Fin 1
   \<and> whole_at_least 0 (page (foldl apply_setter mounted [SetPage (Value (Fin 0)), SetLimit (Value NaN)]))"
proof -
  have f: "\<lfloor>5 / 2 :: rat\<rfloor> = 2"
    by (simp add: floor_eq_iff)
  have m: "useSensorReadings_init (Fin 1) (Fin 20) True = mounted"
    by (simp add: mounted_def)
  have page_mounted: "page mounted = Fin 1" and limit_mounted: "limit mounted = Fin 20"
    by (simp_all add: sample_states)
  note T = setters_sanitize[of "Fin 1" "Fin 20" True _ _ mounted, unfolded m setter_value_def]
  have 1: "page (setPage (Value (Fin (5 / 2))) mounted) = Fin 2"
    using T[of "[]" "Value (Fin (5 / 2))"] by (simp add: f)
  have 2: "page (setPage (Value NaN) mounted) = Fin 1"
    using T[of "[]" "Value NaN"] by simp
  have 3: "page (setPage (Value (Fin (- 1))) mounted) = Fin 1"
    using T[of "[]" "Value (Fin (- 1))"] by simp
  have 4: "limit (setLimit (Value (Fin 0)) mounted) = Fin 20"
    using T[of "[]" "Value (Fin 0)"] by simp
  have 5: "limit (setLimit (Value PInf) mounted) = Fin 20"
    using T[of "[]" "Value PInf"] by simp
  have 6: "page (setPage (Updater js_neg) mounted) = Fin 1"
    using T[of "[]" "Updater js_neg"] by (simp add: page_mounted)
  have 7: "whole_at_least 0
             (page (foldl apply_setter mounted [SetPage (Value (Fin 0)), SetLimit (Value NaN)]))"
    using T[of "[SetPage (Value (Fin 0)), SetLimit (Value NaN)]" "Value NaN"] by blast
  show ?thesis
    using 1 2 3 4 5 6 7 by blast
qed

text \<open>
  Claim C2 as stated fails for the page: \<open>setPage(0)\<close> on the mounted hook stores 0,
  which is below 1 and is not the fallback. Both uses of the sanitizer for the page
  pass \<open>allowZero: true\<close>.
\<close>

theorem setPage_zero_counterexample:
  "page (setPage (Value (Fin 0)) mounted) = Fin 0
   \<and> \<not> js_le (Fin 1) (page (setPage (Value (Fin 0)) mounted))
   \<and> page (setPage (Value (Fin (1 / 2))) mounted) = Fin 0"
proof -
  have f: "\<lfloor>1 / 2 :: rat\<rfloor> = 0"
    by (simp add: floor_eq_iff)
  show ?thesis
    by (simp add: setPage_def sanitizePositiveInteger_def f)
qed

section \<open>The transport function\<close>

lemma show_nat_500: "show_nat 500 = ''500''"
proof -
  have 5: "show_nat 5 = ''5''" by (simp add: show_nat.simps)
  have 50: "show_nat 50 = ''50''" by (subst show_nat.simps) (simp add: 5)
  show ?thesis by (subst show_nat.simps) (simp add: 50)
qed

text \<open>
  When \<open>fetchSensorReadings\<close> rejects, given that \<open>fetch\<close> resolved with a response.
  A status outside 200--299 rejects, whatever the body is, with an error whose message
  ends with the status code and the status text. Otherwise the function rejects exactly
  when the body does not decode, or the payload is falsy, or its \<open>data\<close> is not an
  array, or \<open>typeof\<close> of its \<open>meta\<close> is not \<open>"object"\<close>; and when it does not reject
  it resolves with the payload.
\<close>

lemma fetchSensorReadings_settle_cases:
  "((\<exists>e. fetchSensorReadings_settle (Inr response) = Inl e) \<longleftrightarrow>
      (\<not> response_ok response
       \<or> (case json_body response of
             Inl e \<Rightarrow> True
           | Inr payload \<Rightarrow>
               falsy payload \<or> \<not> Array_isArray (get_prop payload ''data'')
               \<or> typeof (get_prop payload ''meta'') \<noteq> ''object'')))
   \<and> (\<not> response_ok response \<longrightarrow>
        fetchSensorReadings_settle (Inr response) =
          Inl \<lparr>name = ''Error'',
               message = ''Failed to fetch sensor readings: '' @ show_nat (status response)
                         @ '' '' @ statusText response\<rparr>)
   \<and> (\<forall>payload.
        fetchSensorReadings_settle (Inr response) = Inr payload \<longleftrightarrow>
          (response_ok response \<and> json_body response = Inr payload \<and> \<not> falsy payload
           \<and> Array_isArray (get_prop payload ''data'')
           \<and> typeof (get_prop payload ''meta'') = ''object''))"
  by (cases "json_body response") (auto simp: fetchSensorReadings_settle_def)

lemma internal_error_rejected:
  "fetchSensorReadings_settle (Inr internal_error_response) =
     Inl \<lparr>name = ''Error'',
          message = ''Failed to fetch sensor readings: 500 Internal Server Error''\<rparr>"
  by (simp add: fetchSensorReadings_settle_def internal_error_response_def response_ok_def
                show_nat_500)

lemma one_reading_resolved:
  "fetchSensorReadings_settle (Inr (ok_response one_reading_payload)) = Inr one_reading_payload"
  by (simp add: fetchSensorReadings_settle_def ok_response_def response_ok_def
                one_reading_payload_def)

text \<open>
  Claim C6: the code at the input where it departs from the claim. A 200 response whose
  payload has an array \<open>data\<close> and a \<open>null\<close> \<open>meta\<close> resolves with that payload. The
  claim has the function reject it, as \<open>null\<close> is not an object; the check is
  \<open>typeof payload.meta !== "object"\<close>, and \<open>typeof null\<close> is \<open>"object"\<close>.
\<close>

theorem null_meta_resolves:
  "response_ok (ok_response null_meta_payload)
   \<and> json_body (ok_response null_meta_payload) = Inr null_meta_payload
   \<and> \<not> falsy null_meta_payload
   \<and> Array_isArray (get_prop null_meta_payload ''data'')
   \<and> get_prop null_meta_payload ''meta'' = Some JNull
   \<and> fetchSensorReadings_settle (Inr (ok_response null_meta_payload)) = Inr null_meta_payload"
  by (simp add: fetchSensorReadings_settle_def ok_response_def null_meta_payload_def
                response_ok_def)

text \<open>
  The same input read through the check that lets it pass: the payload's \<open>meta\<close> has
  the \<open>typeof\<close> \<open>"object"\<close>, and the function resolves.
\<close>

theorem null_meta_resolves_witness:
  "typeof (get_prop null_meta_payload ''meta'') = ''object''
   \<and> fetchSensorReadings_settle (Inr (ok_response null_meta_payload)) = Inr null_meta_payload"
proof -
  have m: "get_prop null_meta_payload ''meta'' = Some JNull"
    using null_meta_resolves by blast
  have r: "fetchSensorReadings_settle (Inr (ok_response null_meta_payload)) = Inr null_meta_payload"
    using null_meta_resolves by blast
  show ?thesis
    using r by (simp add: m)
qed

lemma map_of_filter_other:
  "k' \<noteq> k \<Longrightarrow> map_of (filter (\<lambda>q. fst q \<noteq> k) ps) k' = map_of ps k'"
  by (induction ps) auto

lemma map_of_replace_first:
  "map_of (replace_first k v ps) k' =
     (if k' = k \<and> k \<in> fst ` set ps then Some v else map_of ps k')"
  by (induction ps) (force simp: map_of_filter_other)+

lemma map_of_searchParams_set:
  "map_of (searchParams (searchParams_set k v u)) k' =
     (if k' = k then Some v else map_of (searchParams u) k')"
proof (cases "k \<in> fst ` set (searchParams u)")
  case True
  then show ?thesis
    by (simp add: searchParams_set_def map_of_replace_first)
next
  case False
  then have "map_of (searchParams u) k = None"
    by (simp add: map_of_eq_None_iff)
  then show ?thesis
    using False by (auto simp: searchParams_set_def map_add_def split: option.splits)
qed

text \<open>
  Claim C7, as the code has it. With an omitted page taken as 1 and an omitted limit
  as 20, the request URL carries \<open>page\<close> (respectively \<open>limit\<close>) with the value
  \<open>String(page)\<close> if and only if that number is not \<open>NaN\<close>: every finite number and both
  infinities are attached. For a \<open>NaN\<close> argument the parameter is whatever the endpoint
  itself has, so it is absent when the endpoint has no such parameter.
\<close>

theorem fetchSensorReadings_query:
  "map_of (searchParams (fetchSensorReadings_url digits ep page_arg limit_arg)) ''page'' =
     (let page = (case page_arg of None \<Rightarrow> Fin 1 | Some p \<Rightarrow> p)
      in if Number_isNaN page then map_of (searchParams ep) ''page''
         else Some (Number_toString digits page))
   \<and> map_of (searchParams (fetchSensorReadings_url digits ep page_arg limit_arg)) ''limit'' =
     (let limit = (case limit_arg of None \<Rightarrow> Fin 20 | Some l \<Rightarrow> l)
      in if Number_isNaN limit then map_of (searchParams ep) ''limit''
         else Some (Number_toString digits limit))
   \<and> (''page'' \<notin> fst ` set (searchParams ep) \<longrightarrow>
        (''page'' \<in> fst ` set (searchParams (fetchSensorReadings_url digits ep page_arg limit_arg))
           \<longleftrightarrow> \<not> Number_isNaN (case page_arg of None \<Rightarrow> Fin 1 | Some p \<Rightarrow> p)))
   \<and> (''limit'' \<notin> fst ` set (searchParams ep) \<longrightarrow>
        (''limit'' \<in> fst ` set (searchParams (fetchSensorReadings_url digits ep page_arg limit_arg))
           \<longleftrightarrow> \<not> Number_isNaN (case limit_arg of None \<Rightarrow> Fin 20 | Some l \<Rightarrow> l)))"
proof -
  let ?u = "fetchSensorReadings_url digits ep page_arg limit_arg"
  have p: "map_of (searchParams ?u) ''page'' =
     (let page = (case page_arg of None \<Rightarrow> Fin 1 | Some p \<Rightarrow> p)
      in if Number_isNaN page then map_of (searchParams ep) ''page''
         else Some (Number_toString digits page))"
    by (simp add: fetchSensorReadings_url_def Let_def map_of_searchParams_set)
  have l: "map_of (searchParams ?u) ''limit'' =
     (let limit = (case limit_arg of None \<Rightarrow> Fin 20 | Some l \<Rightarrow> l)
      in if Number_isNaN limit then map_of (searchParams ep) ''limit''
         else Some (Number_toString digits limit))"
    by (simp add: fetchSensorReadings_url_def Let_def map_of_searchParams_set)
  have dom: "(k \<in> fst ` set ps) = (map_of ps k \<noteq> None)" for k :: string and ps :: "(string \<times> string) list"
    by (simp add: map_of_eq_None_iff)
  show ?thesis
    unfolding dom using p l by (simp add: Let_def)
qed

text \<open>
  The theorem at the default endpoint with page 2 and a \<open>NaN\<close> limit: the URL carries
  \<open>page=2\<close> and no \<open>limit\<close>.
\<close>

theorem fetchSensorReadings_query_witness:
  "\<forall>digits. ''limit'' \<notin> fst ` set (searchParams default_endpoint)
     \<and> map_of (searchParams (fetchSensorReadings_url digits default_endpoint (Some (Fin 2)) (Some NaN)))
         ''page'' = Some ''2''
     \<and> ''limit'' \<notin> fst ` set (searchParams
           (fetchSensorReadings_url digits default_endpoint (Some (Fin 2)) (Some NaN)))"
proof
  fix digits
  have e: "''limit'' \<notin> fst ` set (searchParams default_endpoint)"
    by (simp add: default_endpoint_def)
  have s: "show_nat 2 = ''2''" by (simp add: show_nat.simps)
  show "''limit'' \<notin> fst ` set (searchParams default_endpoint)
     \<and> map_of (searchParams (fetchSensorReadings_url digits default_endpoint (Some (Fin 2)) (Some NaN)))
         ''page'' = Some ''2''
     \<and> ''limit'' \<notin> fst ` set (searchParams
           (fetchSensorReadings_url digits default_endpoint (Some (Fin 2)) (Some NaN)))"
    using fetchSensorReadings_query[of digits default_endpoint "Some (Fin 2)" "Some NaN"] e
    by (simp add: s)
qed

text \<open>
  Claim C7 as stated fails: \<open>Infinity\<close> is not a finite number, yet the URL built for
  the page \<open>Infinity\<close> carries \<open>page=Infinity\<close>. The guard is \<open>!Number.isNaN(page)\<close>.
\<close>

theorem infinite_page_counterexample:
  "\<not> Number_isFinite PInf
   \<and> (\<forall>digits. searchParams (fetchSensorReadings_url digits default_endpoint (Some PInf) None)
        = [(''page'', ''Infinity''), (''limit'', ''20'')])"
proof -
  have s2: "show_nat 2 = ''2''" by (simp add: show_nat.simps)
  have s: "show_nat 20 = ''20''" by (subst show_nat.simps) (simp add: s2)
  show ?thesis
    by (simp add: fetchSensorReadings_url_def default_endpoint_def searchParams_set_def s)
qed

section \<open>Rounding to binary64: what the aggregator's arithmetic needs\<close>

lemma pow2_pos: "0 < pow2 e"
  by (simp add: pow2_def)

lemma pow2_add: "pow2 (a + b) = pow2 a * pow2 b"
  by (simp add: pow2_def power_int_add)

lemma pow2_0: "pow2 0 = 1"
  by (simp add: pow2_def)

lemma pow2_nat: "0 \<le> e \<Longrightarrow> pow2 e = 2 ^ nat e"
  by (simp add: pow2_def power_int_nonneg_exp)

lemma pow2_less_iff: "pow2 a < pow2 b \<longleftrightarrow> a < b"
proof
  assume less: "pow2 a < pow2 b"
  show "a < b"
  proof (rule ccontr)
    assume "\<not> a < b"
    then have "b \<le> a" by simp
    then have "pow2 b \<le> pow2 a"
      unfolding pow2_def by (intro power_int_increasing) simp_all
    with less show False by simp
  qed
next
  assume "a < b"
  then show "pow2 a < pow2 b"
    unfolding pow2_def by (intro power_int_strict_increasing) simp_all
qed

lemma pow2_le_iff: "pow2 a \<le> pow2 b \<longleftrightarrow> a \<le> b"
  using pow2_less_iff[of b a] by (simp add: linorder_not_less[symmetric])

lemma ilog2_bounds:
  assumes "0 < a"
  shows "pow2 (ilog2 a) \<le> a \<and> a < pow2 (ilog2 a + 1)"
proof -
  obtain p q where pq: "quotient_of a = (p, q)" by (cases "quotient_of a")
  have q: "0 < q" using pq by (rule quotient_of_denom_pos)
  have a: "a = of_int p / of_int q" using pq by (simp add: quotient_of_div)
  have p: "0 < p" using assms q a by (simp add: zero_less_divide_iff)
  define bp where "bp = bitlen p"
  define bq where "bq = bitlen q"
  have bp: "2 ^ nat (bp - 1) \<le> p" "p < 2 ^ nat bp"
    using bitlen_bounds[OF p] by (simp_all add: bp_def)
  have bq: "2 ^ nat (bq - 1) \<le> q" "q < 2 ^ nat bq"
    using bitlen_bounds[OF q] by (simp_all add: bq_def)
  have bp1: "1 \<le> bp" using p by (simp add: bp_def bitlen_alt_def)
  have bq1: "1 \<le> bq" using q by (simp add: bq_def bitlen_alt_def)
  have P1: "pow2 (bp - 1) \<le> of_int p"
  proof -
    have "(of_int (2 ^ nat (bp - 1)) :: rat) \<le> of_int p"
      using bp(1) by (simp only: of_int_le_iff)
    then show ?thesis using bp1 by (simp add: pow2_nat)
  qed
  have Q1: "pow2 (bq - 1) \<le> of_int q"
  proof -
    have "(of_int (2 ^ nat (bq - 1)) :: rat) \<le> of_int q"
      using bq(1) by (simp only: of_int_le_iff)
    then show ?thesis using bq1 by (simp add: pow2_nat)
  qed
  have P2: "of_int p < pow2 bp"
  proof -
    have "(of_int p :: rat) < of_int (2 ^ nat bp)"
      using bp(2) by (simp only: of_int_less_iff)
    then show ?thesis using bp1 by (simp add: pow2_nat)
  qed
  have Q2: "of_int q < pow2 bq"
  proof -
    have "(of_int q :: rat) < of_int (2 ^ nat bq)"
      using bq(2) by (simp only: of_int_less_iff)
    then show ?thesis using bq1 by (simp add: pow2_nat)
  qed
  have qr: "0 < (of_int q :: rat)" using q by simp
  have up: "a < pow2 (bp - bq + 1)"
  proof -
    have "of_int p < pow2 (bp - bq + 1) * pow2 (bq - 1)"
      using P2 by (simp add: pow2_add[symmetric])
    also have "\<dots> \<le> pow2 (bp - bq + 1) * of_int q"
      using Q1 pow2_pos[of "bp - bq + 1"] by (simp add: mult_left_mono)
    finally show ?thesis using qr by (simp add: a pos_divide_less_eq)
  qed
  have lo: "pow2 (bp - bq - 1) \<le> a"
  proof -
    have "pow2 (bp - bq - 1) * of_int q \<le> pow2 (bp - bq - 1) * pow2 bq"
      using Q2 pow2_pos[of "bp - bq - 1"] by (simp add: mult_left_mono)
    also have "\<dots> = pow2 (bp - 1)" by (simp add: pow2_add[symmetric])
    also have "\<dots> \<le> of_int p" by (rule P1)
    finally show ?thesis using qr by (simp add: a pos_le_divide_eq)
  qed
  show ?thesis
  proof (cases "pow2 (bp - bq) \<le> a")
    case True
    then have "ilog2 a = bp - bq" by (simp add: ilog2_def pq bp_def bq_def)
    then show ?thesis using True up by simp
  next
    case False
    then have "ilog2 a = bp - bq - 1" by (simp add: ilog2_def pq bp_def bq_def)
    then show ?thesis using False lo by simp
  qed
qed

lemma ilog2_unique:
  assumes "0 < a" "pow2 e \<le> a" "a < pow2 (e + 1)"
  shows "ilog2 a = e"
proof -
  have b: "pow2 (ilog2 a) \<le> a" "a < pow2 (ilog2 a + 1)"
    using ilog2_bounds[OF assms(1)] by simp_all
  have "pow2 e < pow2 (ilog2 a + 1)" using assms(2) b(2) by simp
  then have 1: "e < ilog2 a + 1" by (simp add: pow2_less_iff)
  have "pow2 (ilog2 a) < pow2 (e + 1)" using assms(3) b(1) by simp
  then have 2: "ilog2 a < e + 1" by (simp add: pow2_less_iff)
  show ?thesis using 1 2 by simp
qed

lemma round_half_even_ge_floor: "\<lfloor>q\<rfloor> \<le> round_half_even q"
  by (simp add: round_half_even_def Let_def)

lemma round_half_even_at:
  assumes "of_int f \<le> q" "q < of_int f + 1"
  shows "round_half_even q =
           (if q - of_int f < 1 / 2 then f
            else if 1 / 2 < q - of_int f then f + 1
            else if even f then f else f + 1)"
proof -
  have "\<lfloor>q\<rfloor> = f" using assms by (simp add: floor_eq_iff)
  then show ?thesis by (simp add: round_half_even_def Let_def)
qed

text \<open>The sign of a result: rounding a number that is at least 0 gives one that is.\<close>

lemma rnd_nonneg:
  assumes "0 \<le> x"
  shows "rnd x = PInf \<or> (\<exists>y. rnd x = Fin y \<and> 0 \<le> y)"
proof (cases "x = 0")
  case True
  then show ?thesis by (simp add: rnd_def)
next
  case False
  then have pos: "0 < x" using assms by simp
  define ulp where "ulp = pow2 (max (ilog2 \<bar>x\<bar>) (- 1022) - 52)"
  define m where "m = round_half_even (\<bar>x\<bar> / ulp)"
  have ulp: "0 < ulp" by (simp add: ulp_def pow2_pos)
  have "0 \<le> \<bar>x\<bar> / ulp" using ulp by simp
  then have "0 \<le> \<lfloor>\<bar>x\<bar> / ulp\<rfloor>" by simp
  then have "0 \<le> m" unfolding m_def using round_half_even_ge_floor[of "\<bar>x\<bar> / ulp"] by linarith
  then have y: "0 \<le> of_int m * ulp" using ulp by simp
  have "rnd x = (if pow2 1024 \<le> of_int m * ulp then PInf else Fin (of_int m * ulp))"
    using pos by (simp add: rnd_def Let_def m_def ulp_def)
  then show ?thesis using y by auto
qed

text \<open>Rounding a number that is at least 1 gives one that is.\<close>

lemma rnd_ge_one:
  assumes "1 \<le> x"
  shows "rnd x = PInf \<or> (\<exists>y. rnd x = Fin y \<and> 1 \<le> y)"
proof -
  have pos: "0 < x" using assms by simp
  have ax: "\<bar>x\<bar> = x" using pos by simp
  define e where "e = ilog2 x"
  have b: "pow2 e \<le> x" "x < pow2 (e + 1)"
    using ilog2_bounds[OF pos] by (simp_all add: e_def)
  have "pow2 0 < pow2 (e + 1)" using assms b(2) by (simp add: pow2_0)
  then have e0: "0 \<le> e" by (simp add: pow2_less_iff)
  then have mx: "max e (- 1022) = e" by simp
  define ulp where "ulp = pow2 (e - 52)"
  define m where "m = round_half_even (x / ulp)"
  have ulp: "0 < ulp" by (simp add: ulp_def pow2_pos)
  have split: "pow2 e = pow2 52 * ulp"
    unfolding ulp_def by (simp add: pow2_add[symmetric])
  have "pow2 52 * ulp \<le> x" using b(1) split by simp
  then have "pow2 52 \<le> x / ulp" using ulp by (simp add: pos_le_divide_eq)
  then have "(of_int (2 ^ 52) :: rat) \<le> x / ulp" by (simp add: pow2_nat)
  then have "(2 ^ 52 :: int) \<le> \<lfloor>x / ulp\<rfloor>" by (simp only: le_floor_iff)
  then have "(2 ^ 52 :: int) \<le> m"
    unfolding m_def using round_half_even_ge_floor[of "x / ulp"] by linarith
  then have "(of_int (2 ^ 52) :: rat) \<le> of_int m" by (simp only: of_int_le_iff)
  then have "pow2 52 \<le> of_int m" by (simp add: pow2_nat)
  then have "pow2 52 * ulp \<le> of_int m * ulp" using ulp by (simp add: mult_right_mono)
  then have "pow2 e \<le> of_int m * ulp" using split by simp
  moreover have "pow2 0 \<le> pow2 e" using e0 by (simp add: pow2_le_iff)
  ultimately have y: "1 \<le> of_int m * ulp" by (simp add: pow2_0)
  have "rnd x = (if pow2 1024 \<le> of_int m * ulp then PInf else Fin (of_int m * ulp))"
    using pos by (simp add: rnd_def Let_def ax e_def[symmetric] mx m_def ulp_def)
  then show ?thesis using y by auto
qed

text \<open>
  Computing a rounding: for a positive \<open>x\<close> in the binade of exponent \<open>e\<close>, the result
  is the rounded multiple of \<open>2^(e-52)\<close>.
\<close>

lemma rnd_at:
  assumes "0 < x" "pow2 e \<le> x" "x < pow2 (e + 1)" "- 1022 \<le> e"
      and "round_half_even (x / pow2 (e - 52)) = m"
      and "of_int m * pow2 (e - 52) < pow2 1024"
  shows "rnd x = Fin (of_int m * pow2 (e - 52))"
proof -
  have e: "ilog2 x = e" by (rule ilog2_unique[OF assms(1-3)])
  have ax: "\<bar>x\<bar> = x" using assms(1) by simp
  have mx: "max e (- 1022) = e" using assms(4) by simp
  show ?thesis
    using assms(1,5,6) by (simp add: rnd_def Let_def ax e mx)
qed

section \<open>The aggregator: latest and earliest\<close>

lemma parsed_times_append:
  "parsed_times P (xs @ ys) = parsed_times P xs @ parsed_times P ys"
  by (induction xs) (auto split: option.splits)

lemma set_parsed_times:
  "t \<in> set (parsed_times P xs) \<longleftrightarrow> (\<exists>r \<in> set xs. P (timestamp r) = Some t)"
  by (induction xs) (auto split: option.splits)

lemma first_at_append:
  "first_at P t (xs @ ys) =
     (case first_at P t xs of None \<Rightarrow> first_at P t ys | Some r \<Rightarrow> Some r)"
  by (induction xs) (auto simp: first_at_def)

lemma first_at_absent:
  "t \<notin> set (parsed_times P xs) \<Longrightarrow> first_at P t xs = None"
  by (simp add: first_at_def find_None_iff set_parsed_times)

lemma first_at_present:
  "t \<in> set (parsed_times P xs) \<Longrightarrow> \<exists>r. first_at P t xs = Some r"
  using find_None_iff[of "\<lambda>r. P (timestamp r) = Some t" xs]
  by (cases "first_at P t xs") (auto simp: first_at_def set_parsed_times)

lemma fold_moisture_times:
  "latest_v (fold_moisture v r) = latest_v v \<and> earliest_v (fold_moisture v r) = earliest_v v
   \<and> latestTime (fold_moisture v r) = latestTime v
   \<and> earliestTime (fold_moisture v r) = earliestTime v"
  by (simp add: fold_moisture_def Let_def)

lemma times_inv_unparsed:
  assumes "times_inv P xs v" "P (timestamp x) = None"
  shows "times_inv P (xs @ [x]) (loop_body P v x)"
proof -
  have same: "parsed_times P (xs @ [x]) = parsed_times P xs"
    using assms(2) by (simp add: parsed_times_append)
  have body: "latest_v (loop_body P v x) = latest_v v"
             "earliest_v (loop_body P v x) = earliest_v v"
             "latestTime (loop_body P v x) = latestTime v"
             "earliestTime (loop_body P v x) = earliestTime v"
    using assms(2) by (simp_all add: loop_body_def fold_time_def parsed_def fold_moisture_times)
  have nox: "first_at P t [x] = None" for t
    using assms(2) by (simp add: first_at_def)
  show ?thesis
  proof (cases "parsed_times P xs = []")
    case True
    then show ?thesis using assms(1) by (simp add: times_inv_def same body)
  next
    case False
    have keep: "first_at P t (xs @ [x]) = first_at P t xs" for t
      by (simp add: first_at_append nox split: option.splits)
    show ?thesis using assms(1) False by (simp add: times_inv_def same body keep)
  qed
qed

lemma times_inv_first:
  assumes "times_inv P xs v" "P (timestamp x) = Some t" "parsed_times P xs = []"
  shows "times_inv P (xs @ [x]) (loop_body P v x)"
proof -
  have now: "parsed_times P (xs @ [x]) = [t]"
    using assms(2,3) by (simp add: parsed_times_append)
  have start: "latestTime v = NInf" "earliestTime v = PInf"
    using assms(1,3) by (simp_all add: times_inv_def)
  have body: "latest_v (loop_body P v x) = Some x" "earliest_v (loop_body P v x) = Some x"
             "latestTime (loop_body P v x) = Fin (of_int t)"
             "earliestTime (loop_body P v x) = Fin (of_int t)"
    using assms(2) start
    by (simp_all add: loop_body_def fold_time_def parsed_def fold_moisture_times Let_def js_gt_def)
  have "first_at P t xs = None"
    using assms(3) by (simp add: first_at_absent)
  then have "first_at P t (xs @ [x]) = Some x"
    using assms(2) by (simp add: first_at_append) (simp add: first_at_def)
  then show ?thesis
    by (simp add: times_inv_def now body)
qed

lemma times_inv_later:
  assumes "times_inv P xs v" "P (timestamp x) = Some t" "parsed_times P xs \<noteq> []"
  shows "times_inv P (xs @ [x]) (loop_body P v x)"
proof -
  let ?ts = "parsed_times P xs"
  define hi where "hi = Max (set ?ts)"
  define lo where "lo = Min (set ?ts)"
  have now: "parsed_times P (xs @ [x]) = ?ts @ [t]"
    using assms(2) by (simp add: parsed_times_append)
  have ne: "set ?ts \<noteq> {}" using assms(3) by simp
  have hi_in: "hi \<in> set ?ts" unfolding hi_def using ne by (intro Max_in) simp_all
  have lo_in: "lo \<in> set ?ts" unfolding lo_def using ne by (intro Min_in) simp_all
  have hi_ge: "s \<le> hi" if "s \<in> set ?ts" for s
    unfolding hi_def using that by simp
  have lo_le: "lo \<le> s" if "s \<in> set ?ts" for s
    unfolding lo_def using that by simp
  have lo_hi: "lo \<le> hi" using hi_ge[OF lo_in] .
  have Max_now: "Max (set (?ts @ [t])) = max t hi"
    using ne by (simp add: hi_def)
  have Min_now: "Min (set (?ts @ [t])) = min t lo"
    using ne by (simp add: lo_def)
  have v: "latestTime v = Fin (of_int hi)" "latest_v v = first_at P hi xs"
          "earliestTime v = Fin (of_int lo)" "earliest_v v = first_at P lo xs"
    using assms(1,3) by (simp_all add: times_inv_def hi_def lo_def)
  have body: "latestTime (loop_body P v x) = Fin (of_int (max t hi))"
             "latest_v (loop_body P v x) = (if hi < t then Some x else first_at P hi xs)"
             "earliestTime (loop_body P v x) = Fin (of_int (min t lo))"
             "earliest_v (loop_body P v x) = (if t < lo then Some x else first_at P lo xs)"
    using assms(2) v lo_hi
    by (auto simp: loop_body_def fold_time_def parsed_def fold_moisture_times Let_def js_gt_def)
  have latest_ok: "(if hi < t then Some x else first_at P hi xs) = first_at P (max t hi) (xs @ [x])"
  proof (cases "hi < t")
    case True
    then have "t \<notin> set ?ts" using hi_ge by force
    then have "first_at P t xs = None" by (rule first_at_absent)
    then have "first_at P t (xs @ [x]) = Some x"
      using assms(2) by (simp add: first_at_append) (simp add: first_at_def)
    then show ?thesis using True by (simp add: max_def)
  next
    case False
    obtain r where r: "first_at P hi xs = Some r" using first_at_present[OF hi_in] by blast
    have "max t hi = hi" using False by simp
    then show ?thesis using False r by (simp add: first_at_append)
  qed
  have earliest_ok: "(if t < lo then Some x else first_at P lo xs) = first_at P (min t lo) (xs @ [x])"
  proof (cases "t < lo")
    case True
    then have "t \<notin> set ?ts" using lo_le by force
    then have "first_at P t xs = None" by (rule first_at_absent)
    then have "first_at P t (xs @ [x]) = Some x"
      using assms(2) by (simp add: first_at_append) (simp add: first_at_def)
    then show ?thesis using True by (simp add: min_def)
  next
    case False
    obtain r where r: "first_at P lo xs = Some r" using first_at_present[OF lo_in] by blast
    have "min t lo = lo" using False by simp
    then show ?thesis using False r by (simp add: first_at_append)
  qed
  show ?thesis
    unfolding times_inv_def now Max_now Min_now
    using body latest_ok earliest_ok by simp
qed

lemma times_inv_loop: "times_inv P xs (foldl (loop_body P) loop_init xs)"
proof (induction xs rule: rev_induct)
  case Nil
  show ?case by (simp add: times_inv_def loop_init_def)
next
  case (snoc x xs)
  show ?case
  proof (cases "P (timestamp x)")
    case None
    then show ?thesis using times_inv_unparsed[OF snoc.IH] by simp
  next
    case (Some t)
    show ?thesis
    proof (cases "parsed_times P xs = []")
      case True
      then show ?thesis using times_inv_first[OF snoc.IH Some] by simp
    next
      case False
      then show ?thesis using times_inv_later[OF snoc.IH Some] by simp
    qed
  qed
qed

text \<open>
  Claim C8. The latest candidate is the first reading, in iteration order, whose parsed
  time is the greatest one, and the earliest candidate the first reading whose parsed
  time is the least one: among readings with identical parsed timestamps a later one
  never replaces the first one seen, as both comparisons are strict. (No reading with
  a parseable timestamp: both candidates and \<open>lastUpdated\<close> are \<open>null\<close>.)
\<close>

theorem first_seen_wins_ties:
  "(parsed_times Date_parse readings = [] \<longrightarrow>
      latest (computeStatistics Date_parse readings) = None
      \<and> earliest (computeStatistics Date_parse readings) = None
      \<and> lastUpdated (computeStatistics Date_parse readings) = None)
   \<and> (parsed_times Date_parse readings \<noteq> [] \<longrightarrow>
      latest (computeStatistics Date_parse readings)
        = first_at Date_parse (Max (set (parsed_times Date_parse readings))) readings
      \<and> earliest (computeStatistics Date_parse readings)
        = first_at Date_parse (Min (set (parsed_times Date_parse readings))) readings
      \<and> lastUpdated (computeStatistics Date_parse readings)
        = Some (Fin (of_int (Max (set (parsed_times Date_parse readings))))))"
  using times_inv_loop[of Date_parse readings]
  by (simp add: times_inv_def computeStatistics_def finish_def js_gt_def split: if_splits)

text \<open>
  The theorem at two readings whose timestamps are two spellings of one instant: the
  first one is both the latest and the earliest, also when the two come in the other
  order.
\<close>

theorem first_seen_wins_ties_witness:
  "parsed_times sample_Date_parse [first_seen, second_seen] = [1704067200000, 1704067200000]
   \<and> latest (computeStatistics sample_Date_parse [first_seen, second_seen]) = Some first_seen
   \<and> earliest (computeStatistics sample_Date_parse [first_seen, second_seen]) = Some first_seen
   \<and> latest (computeStatistics sample_Date_parse [second_seen, first_seen]) = Some second_seen
   \<and> earliest (computeStatistics sample_Date_parse [second_seen, first_seen]) = Some second_seen"
proof -
  have t1: "parsed_times sample_Date_parse [first_seen, second_seen]
              = [1704067200000, 1704067200000]"
    by (simp add: sample_Date_parse_def first_seen_def second_seen_def)
  have t2: "parsed_times sample_Date_parse [second_seen, first_seen]
              = [1704067200000, 1704067200000]"
    by (simp add: sample_Date_parse_def first_seen_def second_seen_def)
  have f1: "first_at sample_Date_parse 1704067200000 [first_seen, second_seen] = Some first_seen"
    by (simp add: first_at_def sample_Date_parse_def first_seen_def)
  have f2: "first_at sample_Date_parse 1704067200000 [second_seen, first_seen] = Some second_seen"
    by (simp add: first_at_def sample_Date_parse_def second_seen_def)
  note A = first_seen_wins_ties[of sample_Date_parse "[first_seen, second_seen]", unfolded t1]
  note B = first_seen_wins_ties[of sample_Date_parse "[second_seen, first_seen]", unfolded t2]
  have a: "latest (computeStatistics sample_Date_parse [first_seen, second_seen]) = Some first_seen
           \<and> earliest (computeStatistics sample_Date_parse [first_seen, second_seen]) = Some first_seen"
    using A by (simp add: f1)
  have b: "latest (computeStatistics sample_Date_parse [second_seen, first_seen]) = Some second_seen
           \<and> earliest (computeStatistics sample_Date_parse [second_seen, first_seen]) = Some second_seen"
    using B by (simp add: f2)
  show ?thesis
    using t1 a b by blast
qed

section \<open>The aggregator: the moisture statistics\<close>

lemma finite_moistures_append:
  "finite_moistures (xs @ ys) = finite_moistures xs @ finite_moistures ys"
  by (induction xs) (auto split: jsnum.splits)

lemma finite_moistures_empty_iff:
  "finite_moistures xs = [] \<longleftrightarrow> \<not> (\<exists>r \<in> set xs. Number_isFinite (moisture r))"
  by (induction xs) (auto split: jsnum.splits)

lemma Min_le_Max_list:
  fixes ms :: "rat list"
  assumes "ms \<noteq> []"
  shows "Min (set ms) \<le> Max (set ms)"
proof -
  have "Min (set ms) \<in> set ms" using assms by (intro Min_in) simp_all
  then show ?thesis by (intro Max_ge) simp_all
qed

lemma fold_time_moistures:
  "sum_v (fold_time P v r) = sum_v v \<and> count_v (fold_time P v r) = count_v v
   \<and> min_v (fold_time P v r) = min_v v \<and> max_v (fold_time P v r) = max_v v"
  by (simp add: fold_time_def Let_def)

lemma moistures_inv_step:
  assumes "moistures_inv xs v"
  shows "moistures_inv (xs @ [x]) (loop_body P v x)"
proof (cases "moisture x")
  case (Fin m)
  let ?ms = "finite_moistures xs"
  have now: "finite_moistures (xs @ [x]) = ?ms @ [m]"
    by (simp add: finite_moistures_append Fin)
  have v: "sum_v v = running_sum ?ms" "count_v v = running_count ?ms"
    using assms by (simp_all add: moistures_inv_def)
  have sums: "sum_v (loop_body P v x) = running_sum (?ms @ [m])"
             "count_v (loop_body P v x) = running_count (?ms @ [m])"
    using v
    by (simp_all add: loop_body_def fold_time_moistures fold_moisture_def Fin Let_def
                      running_sum_def running_count_def del: js_add.simps)
  show ?thesis
  proof (cases "?ms = []")
    case True
    then have "min_v v = PInf" "max_v v = NInf"
      using assms by (simp_all add: moistures_inv_def)
    then have "min_v (loop_body P v x) = Fin m" "max_v (loop_body P v x) = Fin m"
      by (simp_all add: loop_body_def fold_time_moistures fold_moisture_def Fin Let_def js_gt_def
                   del: js_add.simps)
    then show ?thesis
      using sums True by (simp add: moistures_inv_def now)
  next
    case False
    define lo where "lo = Min (set ?ms)"
    define hi where "hi = Max (set ?ms)"
    have ne: "set ?ms \<noteq> {}" using False by simp
    have lo_hi: "lo \<le> hi"
      unfolding lo_def hi_def using False by (rule Min_le_Max_list)
    have "min_v v = Fin lo" "max_v v = Fin hi"
      using assms False by (simp_all add: moistures_inv_def lo_def hi_def)
    then have "min_v (loop_body P v x) = Fin (min m lo)" "max_v (loop_body P v x) = Fin (max m hi)"
      using lo_hi
      by (auto simp: loop_body_def fold_time_moistures fold_moisture_def Fin Let_def js_gt_def
               simp del: js_add.simps)
    moreover have "Min (set (?ms @ [m])) = min m lo" "Max (set (?ms @ [m])) = max m hi"
      using ne by (simp_all add: lo_def hi_def)
    ultimately show ?thesis
      using sums by (simp add: moistures_inv_def now)
  qed
next
  case PInf
  then have "finite_moistures (xs @ [x]) = finite_moistures xs"
    by (simp add: finite_moistures_append)
  then show ?thesis
    using assms PInf
    by (simp add: moistures_inv_def loop_body_def fold_time_moistures fold_moisture_def)
next
  case NInf
  then have "finite_moistures (xs @ [x]) = finite_moistures xs"
    by (simp add: finite_moistures_append)
  then show ?thesis
    using assms NInf
    by (simp add: moistures_inv_def loop_body_def fold_time_moistures fold_moisture_def)
next
  case NaN
  then have "finite_moistures (xs @ [x]) = finite_moistures xs"
    by (simp add: finite_moistures_append)
  then show ?thesis
    using assms NaN
    by (simp add: moistures_inv_def loop_body_def fold_time_moistures fold_moisture_def)
qed

lemma moistures_inv_loop: "moistures_inv xs (foldl (loop_body P) loop_init xs)"
proof (induction xs rule: rev_induct)
  case Nil
  show ?case
    by (simp add: moistures_inv_def loop_init_def running_sum_def running_count_def)
next
  case (snoc x xs)
  show ?case using moistures_inv_step[OF snoc.IH] by simp
qed

text \<open>The count is 0 before the first finite moisture and at least 1 after it.\<close>

lemma running_count_ge_one:
  "ms \<noteq> [] \<Longrightarrow> running_count ms = PInf \<or> (\<exists>y. running_count ms = Fin y \<and> 1 \<le> y)"
proof (induction ms rule: rev_induct)
  case Nil
  then show ?case by simp
next
  case (snoc m ms)
  have step: "running_count (ms @ [m]) = js_add (running_count ms) (Fin 1)"
    by (simp add: running_count_def del: js_add.simps)
  show ?case
  proof (cases "ms = []")
    case True
    then have "running_count (ms @ [m]) = rnd 1"
      by (simp add: step) (simp add: running_count_def)
    then show ?thesis using rnd_ge_one[of 1] by simp
  next
    case False
    from snoc.IH[OF False] show ?thesis
    proof
      assume "running_count ms = PInf"
      then show ?thesis by (simp add: step)
    next
      assume "\<exists>y. running_count ms = Fin y \<and> 1 \<le> y"
      then obtain y where y: "running_count ms = Fin y" "1 \<le> y" by blast
      then have "running_count (ms @ [m]) = rnd (y + 1)" by (simp add: step)
      then show ?thesis using rnd_ge_one[of "y + 1"] y(2) by simp
    qed
  qed
qed

lemma running_count_positive: "js_gt (running_count ms) (Fin 0) \<longleftrightarrow> ms \<noteq> []"
proof (cases "ms = []")
  case True
  then show ?thesis by (simp add: running_count_def js_gt_def)
next
  case False
  then show ?thesis using running_count_ge_one[OF False] by (auto simp: js_gt_def)
qed

lemma difference_nonneg:
  assumes "lo \<le> hi"
  shows "js_le (Fin 0) (js_sub (Fin hi) (Fin lo))"
proof -
  have "js_sub (Fin hi) (Fin lo) = rnd (hi - lo)" by (simp add: js_sub_def)
  then show ?thesis using rnd_nonneg[of "hi - lo"] assms by auto
qed

text \<open>
  Claim C10, as the code has it. When some reading has a finite moisture, the four
  statistics are not \<open>null\<close>: the minimum and the maximum are the least and the greatest
  finite moisture, so the minimum is at most the maximum; the range is their difference
  rounded to a double, which is at least 0 (it may be \<open>Infinity\<close>); the average is the
  quotient, rounded to a double, of the running sum and the running count, whose every
  step is rounded. When no reading has a finite moisture, the four are \<open>null\<close>.
\<close>

theorem moisture_statistics:
  "((\<exists>r \<in> set readings. Number_isFinite (moisture r)) \<longrightarrow>
      average (computeStatistics Date_parse readings)
        = Some (js_div (running_sum (finite_moistures readings))
                       (running_count (finite_moistures readings)))
      \<and> min_stat (computeStatistics Date_parse readings)
        = Some (Fin (Min (set (finite_moistures readings))))
      \<and> max_stat (computeStatistics Date_parse readings)
        = Some (Fin (Max (set (finite_moistures readings))))
      \<and> Min (set (finite_moistures readings)) \<le> Max (set (finite_moistures readings))
      \<and> range_stat (computeStatistics Date_parse readings)
        = Some (js_sub (Fin (Max (set (finite_moistures readings))))
                       (Fin (Min (set (finite_moistures readings)))))
      \<and> js_le (Fin 0) (js_sub (Fin (Max (set (finite_moistures readings))))
                              (Fin (Min (set (finite_moistures readings))))))
   \<and> (\<not> (\<exists>r \<in> set readings. Number_isFinite (moisture r)) \<longrightarrow>
      average (computeStatistics Date_parse readings) = None
      \<and> min_stat (computeStatistics Date_parse readings) = None
      \<and> max_stat (computeStatistics Date_parse readings) = None
      \<and> range_stat (computeStatistics Date_parse readings) = None)"
proof -
  let ?ms = "finite_moistures readings"
  let ?v = "foldl (loop_body Date_parse) loop_init readings"
  have inv: "moistures_inv readings ?v" by (rule moistures_inv_loop)
  have count: "js_gt (count_v ?v) (Fin 0) \<longleftrightarrow> ?ms \<noteq> []"
    using inv by (simp add: moistures_inv_def running_count_positive)
  have none: "average (computeStatistics Date_parse readings) = None
      \<and> min_stat (computeStatistics Date_parse readings) = None
      \<and> max_stat (computeStatistics Date_parse readings) = None
      \<and> range_stat (computeStatistics Date_parse readings) = None"
    if "?ms = []"
    using that count by (simp add: computeStatistics_def finish_def)
  have some: "average (computeStatistics Date_parse readings)
        = Some (js_div (running_sum ?ms) (running_count ?ms))
      \<and> min_stat (computeStatistics Date_parse readings) = Some (Fin (Min (set ?ms)))
      \<and> max_stat (computeStatistics Date_parse readings) = Some (Fin (Max (set ?ms)))
      \<and> Min (set ?ms) \<le> Max (set ?ms)
      \<and> range_stat (computeStatistics Date_parse readings)
        = Some (js_sub (Fin (Max (set ?ms))) (Fin (Min (set ?ms))))
      \<and> js_le (Fin 0) (js_sub (Fin (Max (set ?ms))) (Fin (Min (set ?ms))))"
    if ne: "?ms \<noteq> []"
  proof -
    have order: "Min (set ?ms) \<le> Max (set ?ms)"
      using ne by (rule Min_le_Max_list)
    have fields: "sum_v ?v = running_sum ?ms" "count_v ?v = running_count ?ms"
                 "min_v ?v = Fin (Min (set ?ms))" "max_v ?v = Fin (Max (set ?ms))"
      using inv ne by (simp_all add: moistures_inv_def)
    show ?thesis
      using count ne order difference_nonneg[OF order]
      by (simp add: computeStatistics_def finish_def fields)
  qed
  have eq: "(\<exists>r \<in> set readings. Number_isFinite (moisture r)) \<longleftrightarrow> ?ms \<noteq> []"
    using finite_moistures_empty_iff[of readings] by blast
  show ?thesis
    unfolding eq using none some by blast
qed

lemma rnd_one: "rnd 1 = Fin 1"
proof -
  have r: "round_half_even (1 / pow2 (0 - 52)) = 2 ^ 52"
    by (simp add: pow2_def power_int_minus round_half_even_def)
  have "rnd 1 = Fin (of_int (2 ^ 52) * pow2 (0 - 52))"
    by (rule rnd_at[OF _ _ _ _ r]) (simp_all add: pow2_def power_int_minus)
  then show ?thesis by (simp add: pow2_def power_int_minus)
qed

lemma rnd_tenth: "rnd tenth = Fin tenth"
proof -
  have r: "round_half_even (tenth / pow2 (- 4 - 52)) = 7205759403792794"
    by (simp add: tenth_def pow2_def power_int_minus round_half_even_def)
  have "rnd tenth = Fin (of_int 7205759403792794 * pow2 (- 4 - 52))"
    by (rule rnd_at[OF _ _ _ _ r]) (simp_all add: tenth_def pow2_def power_int_minus)
  then show ?thesis by (simp add: tenth_def pow2_def power_int_minus)
qed

lemma rnd_two: "rnd 2 = Fin 2"
proof -
  have r: "round_half_even (2 / pow2 (1 - 52)) = 2 ^ 52"
    by (simp add: pow2_def power_int_minus round_half_even_def)
  have "rnd 2 = Fin (of_int (2 ^ 52) * pow2 (1 - 52))"
    by (rule rnd_at[OF _ _ _ _ r]) (simp_all add: pow2_def power_int_minus)
  then show ?thesis by (simp add: pow2_def power_int_minus)
qed

lemma rnd_three: "rnd 3 = Fin 3"
proof -
  have r: "round_half_even (3 / pow2 (1 - 52)) = 3 * 2 ^ 51"
    by (simp add: pow2_def power_int_minus round_half_even_def)
  have "rnd 3 = Fin (of_int (3 * 2 ^ 51) * pow2 (1 - 52))"
    by (rule rnd_at[OF _ _ _ _ r]) (simp_all add: pow2_def power_int_minus)
  then show ?thesis by (simp add: pow2_def power_int_minus)
qed

lemma rnd_two_tenths: "rnd (tenth + tenth) = Fin two_tenths"
proof -
  have r: "round_half_even ((tenth + tenth) / pow2 (- 3 - 52)) = 7205759403792794"
    by (simp add: tenth_def pow2_def power_int_minus round_half_even_def)
  have "rnd (tenth + tenth) = Fin (of_int 7205759403792794 * pow2 (- 3 - 52))"
    by (rule rnd_at[OF _ _ _ _ r]) (simp_all add: tenth_def pow2_def power_int_minus)
  then show ?thesis by (simp add: two_tenths_def pow2_def power_int_minus)
qed

text \<open>
  \<open>0.2 + 0.1\<close> lies halfway between two doubles, and the tie goes to the even one,
  which is the greater.
\<close>

lemma rnd_three_tenths: "rnd (two_tenths + tenth) = Fin three_tenths"
proof -
  have q: "(two_tenths + tenth) / pow2 (- 2 - 52) = of_int 5404319552844595 + 1 / 2"
    by (simp add: two_tenths_def tenth_def pow2_def power_int_minus)
  have r: "round_half_even ((two_tenths + tenth) / pow2 (- 2 - 52)) = 5404319552844596"
    unfolding q by (subst round_half_even_at[of 5404319552844595]) simp_all
  have "rnd (two_tenths + tenth) = Fin (of_int 5404319552844596 * pow2 (- 2 - 52))"
    by (rule rnd_at[OF _ _ _ _ r])
       (simp_all add: two_tenths_def tenth_def pow2_def power_int_minus)
  then show ?thesis by (simp add: three_tenths_def pow2_def power_int_minus)
qed

lemma rnd_mean_of_tenths: "rnd (three_tenths / 3) = Fin mean_of_tenths"
proof -
  have q: "three_tenths / 3 / pow2 (- 4 - 52) = of_int 7205759403792794 + 2 / 3"
    by (simp add: three_tenths_def pow2_def power_int_minus)
  have r: "round_half_even (three_tenths / 3 / pow2 (- 4 - 52)) = 7205759403792795"
    unfolding q by (subst round_half_even_at[of 7205759403792794]) simp_all
  have "rnd (three_tenths / 3) = Fin (of_int 7205759403792795 * pow2 (- 4 - 52))"
    by (rule rnd_at[OF _ _ _ _ r]) (simp_all add: three_tenths_def pow2_def power_int_minus)
  then show ?thesis by (simp add: mean_of_tenths_def pow2_def power_int_minus)
qed

lemma ten_from_twenty: "js_sub (Fin 20) (Fin 10) = Fin 10"
proof -
  have r: "round_half_even (10 / pow2 (3 - 52)) = 5 * 2 ^ 50"
    by (simp add: pow2_def power_int_minus round_half_even_def)
  have "rnd 10 = Fin (of_int (5 * 2 ^ 50) * pow2 (3 - 52))"
    by (rule rnd_at[OF _ _ _ _ r]) (simp_all add: pow2_def power_int_minus)
  then show ?thesis by (simp add: js_sub_def pow2_def power_int_minus)
qed

text \<open>
  The theorem at the readings of moisture 10 and 20: the minimum is 10, the maximum 20
  and the range 10; and at a reading whose moisture is \<open>NaN\<close>: the four are \<open>null\<close>.
\<close>

theorem moisture_statistics_witness:
  "(\<exists>r \<in> set [first_seen, second_seen]. Number_isFinite (moisture r))
   \<and> min_stat (computeStatistics sample_Date_parse [first_seen, second_seen]) = Some (Fin 10)
   \<and> max_stat (computeStatistics sample_Date_parse [first_seen, second_seen]) = Some (Fin 20)
   \<and> range_stat (computeStatistics sample_Date_parse [first_seen, second_seen]) = Some (Fin 10)
   \<and> \<not> (\<exists>r \<in> set [first_seen\<lparr>moisture := NaN\<rparr>]. Number_isFinite (moisture r))
   \<and> average (computeStatistics sample_Date_parse [first_seen\<lparr>moisture := NaN\<rparr>]) = None
   \<and> range_stat (computeStatistics sample_Date_parse [first_seen\<lparr>moisture := NaN\<rparr>]) = None"
proof -
  have h: "\<exists>r \<in> set [first_seen, second_seen]. Number_isFinite (moisture r)"
    by (simp add: first_seen_def)
  have ms: "finite_moistures [first_seen, second_seen] = [10, 20]"
    by (simp add: first_seen_def second_seen_def)
  have n: "\<not> (\<exists>r \<in> set [first_seen\<lparr>moisture := NaN\<rparr>]. Number_isFinite (moisture r))"
    by simp
  note A = moisture_statistics[of "[first_seen, second_seen]" sample_Date_parse, unfolded ms]
  note B = moisture_statistics[of "[first_seen\<lparr>moisture := NaN\<rparr>]" sample_Date_parse]
  have a: "min_stat (computeStatistics sample_Date_parse [first_seen, second_seen]) = Some (Fin 10)
     \<and> max_stat (computeStatistics sample_Date_parse [first_seen, second_seen]) = Some (Fin 20)
     \<and> range_stat (computeStatistics sample_Date_parse [first_seen, second_seen]) = Some (Fin 10)"
    using A[THEN conjunct1, THEN mp, OF h] by (simp add: ten_from_twenty)
  have b: "average (computeStatistics sample_Date_parse [first_seen\<lparr>moisture := NaN\<rparr>]) = None
     \<and> range_stat (computeStatistics sample_Date_parse [first_seen\<lparr>moisture := NaN\<rparr>]) = None"
    using B n by blast
  show ?thesis
    using h n a b by blast
qed

text \<open>
  Claim C10 as stated fails for the average. Three readings of moisture 0.1 (the double
  nearest to it) have the maximum 0.1, but the running sum \<open>0.1 + 0.1 + 0.1\<close> is the
  double \<open>0.30000000000000004\<close> and its quotient by 3 is \<open>0.10000000000000002\<close>: the
  average is greater than the maximum.
\<close>

theorem average_above_max_counterexample:
  "average (computeStatistics sample_Date_parse [tenth_reading, tenth_reading, tenth_reading])
     = Some (Fin mean_of_tenths)
   \<and> max_stat (computeStatistics sample_Date_parse [tenth_reading, tenth_reading, tenth_reading])
     = Some (Fin tenth)
   \<and> tenth < mean_of_tenths
   \<and> \<not> js_le (Fin mean_of_tenths) (Fin tenth)"
proof -
  let ?rs = "[tenth_reading, tenth_reading, tenth_reading]"
  define v where "v = foldl (loop_body sample_Date_parse) loop_init ?rs"
  have ms: "finite_moistures ?rs = [tenth, tenth, tenth]"
    by (simp add: tenth_reading_def)
  have s1: "js_add (Fin 0) (Fin tenth) = Fin tenth"
    by (simp add: rnd_tenth)
  have s2: "js_add (Fin tenth) (Fin tenth) = Fin two_tenths"
    by (simp only: js_add.simps rnd_two_tenths)
  have s3: "js_add (Fin two_tenths) (Fin tenth) = Fin three_tenths"
    by (simp only: js_add.simps rnd_three_tenths)
  have total: "running_sum [tenth, tenth, tenth] = Fin three_tenths"
    by (simp add: running_sum_def s1 s2 s3 del: js_add.simps)
  have c1: "js_add (Fin 0) (Fin 1) = Fin 1"
    by (simp add: rnd_one)
  have c2: "js_add (Fin 1) (Fin 1) = Fin 2"
    by (simp add: rnd_two)
  have c3: "js_add (Fin 2) (Fin 1) = Fin 3"
    by (simp add: rnd_three)
  have count: "running_count [tenth, tenth, tenth] = Fin 3"
    by (simp add: running_count_def c1 c2 c3 del: js_add.simps)
  have inv: "moistures_inv ?rs v"
    unfolding v_def by (rule moistures_inv_loop)
  have fields: "sum_v v = Fin three_tenths" "count_v v = Fin 3" "max_v v = Fin tenth"
    using inv unfolding moistures_inv_def ms total count by simp_all
  have less: "tenth < mean_of_tenths"
    by (simp add: tenth_def mean_of_tenths_def)
  have stats: "computeStatistics sample_Date_parse ?rs = finish v"
    by (simp only: computeStatistics_def v_def)
  have "average (computeStatistics sample_Date_parse ?rs) = Some (Fin mean_of_tenths)"
    unfolding stats by (simp add: finish_def fields js_gt_def rnd_mean_of_tenths)
  moreover have "max_stat (computeStatistics sample_Date_parse ?rs) = Some (Fin tenth)"
    unfolding stats by (simp add: finish_def fields js_gt_def)
  ultimately show ?thesis
    using less by auto
qed

end
